theory Spec2Isabelle
  imports Main
begin

section \<open>JavaScript values read by the middleware\<close>

text \<open>
  The request objects the middleware reads (\<open>req.currentUser\<close>, \<open>req.currentObject\<close>,
  the permission rows) are plain JavaScript objects. A property that an object does not
  carry reads as \<open>undefined\<close>; property names are case sensitive.
\<close>

datatype jsval =
    JUndefined
  | JNull
  | JBool bool
  | JStr string
  | JObj "(string \<times> jsval) list"

text \<open>\<open>o.p\<close>. Every read in the modelled code is guarded by a truthiness test of \<open>o\<close>,
  so the TypeError of a read on \<open>undefined\<close> or \<open>null\<close> is never reached.\<close>

fun getprop :: "jsval \<Rightarrow> string \<Rightarrow> jsval" where
  "getprop (JObj fs) p = (case map_of fs p of Some v \<Rightarrow> v | None \<Rightarrow> JUndefined)"
| "getprop _ p = JUndefined"

fun truthy :: "jsval \<Rightarrow> bool" where
  "truthy JUndefined = False"
| "truthy JNull = False"
| "truthy (JBool b) = b"
| "truthy (JStr s) = (s \<noteq> [])"
| "truthy (JObj fs) = True"

text \<open>\<open>a === b\<close>: no conversion; values of different types are never equal. Two objects
  are equal only when they are the same reference, which the modelled code never tests.\<close>

fun strict_eq :: "jsval \<Rightarrow> jsval \<Rightarrow> bool" where
  "strict_eq JUndefined JUndefined = True"
| "strict_eq JNull JNull = True"
| "strict_eq (JBool a) (JBool b) = (a = b)"
| "strict_eq (JStr a) (JStr b) = (a = b)"
| "strict_eq _ _ = False"

section \<open>Constants and configuration\<close>

text \<open>Modelled from the spec: \<open>components/constants\<close> (AuthMode, AuthType, Permissions) is
  not among the sources. The spec names the modes NONE/BASIC/OIDC/FULL, the types
  NONE/BASIC/BEARER and the permission code READ; the code names the modes
  \<open>NOAUTH\<close>, \<open>BASICAUTH\<close>, \<open>OIDCAUTH\<close>, \<open>FULLAUTH\<close>.\<close>

datatype AuthMode = NOAUTH | BASICAUTH | OIDCAUTH | FULLAUTH

definition AuthType_NONE :: jsval where "AuthType_NONE = JStr ''NONE''"
definition AuthType_BASIC :: jsval where "AuthType_BASIC = JStr ''BASIC''"
definition AuthType_BEARER :: jsval where "AuthType_BEARER = JStr ''BEARER''"

definition Permissions_READ :: jsval where "Permissions_READ = JStr ''READ''"

text \<open>\<open>config.has('basicAuth.enabled')\<close> and \<open>config.has('keycloak.enabled')\<close>.\<close>

record config =
  basicAuth_enabled :: bool
  keycloak_enabled :: bool

definition getAppAuthMode :: "config \<Rightarrow> AuthMode" where
  "getAppAuthMode cfg =
     (let basicAuth = basicAuth_enabled cfg; oidcAuth = keycloak_enabled cfg
      in if \<not> basicAuth \<and> \<not> oidcAuth then NOAUTH
         else if basicAuth \<and> \<not> oidcAuth then BASICAUTH
         else if \<not> basicAuth \<and> oidcAuth then OIDCAUTH
         else FULLAUTH)"

section \<open>Authorization middleware\<close>

record request =
  currentUser :: jsval
  currentObject :: jsval
  params_objId :: jsval

text \<open>What a middleware does with the request: call \<open>next()\<close>, or send a Problem with a
  status and a detail text.\<close>

datatype outcome = Next | Problem nat string

text \<open>The errors thrown inside the \<open>try\<close> blocks (their messages are only logged).\<close>

datatype auth_error =
    UnsupportedBearer
  | UnsupportedBasic
  | MissingObjectRecord
  | MissingUserIdentification
  | LacksPermission
  | ServiceError

definition checkAppMode_try :: "config \<Rightarrow> request \<Rightarrow> auth_error + unit" where
  "checkAppMode_try cfg req =
     (let authMode = getAppAuthMode cfg;
          authType = (if truthy (currentUser req) then getprop (currentUser req) ''AuthType''
                      else JUndefined)
      in if authMode = BASICAUTH \<and> strict_eq authType AuthType_BEARER then Inl UnsupportedBearer
         else if authMode = OIDCAUTH \<and> strict_eq authType AuthType_BASIC then Inl UnsupportedBasic
         else Inr ())"

definition checkAppMode :: "config \<Rightarrow> request \<Rightarrow> outcome" where
  "checkAppMode cfg req =
     (case checkAppMode_try cfg req of
        Inl err \<Rightarrow>
          Problem 501 ''Current application mode does not support incoming authentication type''
      | Inr u \<Rightarrow> Next)"

text \<open>\<open>recordService.readPermissions(objId, sub)\<close> is a parameter: the rows granted to the
  subject on the object, or the error the service throws.\<close>

type_synonym permission_lookup = "jsval \<Rightarrow> jsval \<Rightarrow> auth_error + jsval list"

definition hasPermission_try ::
  "config \<Rightarrow> permission_lookup \<Rightarrow> jsval \<Rightarrow> request \<Rightarrow> auth_error + unit" where
  "hasPermission_try cfg readPermissions permission req =
     (if keycloak_enabled cfg then
        if \<not> truthy (currentObject req) then Inl MissingObjectRecord
        else if \<not> truthy (getprop (currentObject req) ''public'')
                \<or> strict_eq (JBool (\<not> truthy permission)) Permissions_READ then
          if truthy (currentUser req)
             \<and> strict_eq (getprop (currentUser req) ''authType'') AuthType_BEARER
             \<and> truthy (getprop (currentUser req) ''tokenPayload'')
             \<and> truthy (getprop (getprop (currentUser req) ''tokenPayload'') ''sub'')
          then
            (case readPermissions (params_objId req)
                    (getprop (getprop (currentUser req) ''tokenPayload'') ''sub'') of
               Inl err \<Rightarrow> Inl err
             | Inr permissions \<Rightarrow>
                 if \<not> list_ex (\<lambda>p. strict_eq (getprop p ''code'') permission) permissions
                 then Inl LacksPermission
                 else Inr ())
          else Inl MissingUserIdentification
        else Inr ()
      else Inr ())"

definition hasPermission :: "config \<Rightarrow> permission_lookup \<Rightarrow> jsval \<Rightarrow> request \<Rightarrow> outcome" where
  "hasPermission cfg readPermissions permission req =
     (case hasPermission_try cfg readPermissions permission req of
        Inl err \<Rightarrow> Problem 403 ''User lacks permission to complete this action''
      | Inr u \<Rightarrow> Next)"

section \<open>Tables of the attribute stores\<close>

text \<open>
  Incoming tags and metadata are objects \<open>{key, value}\<close>; the rows of the tables \<open>tag\<close>
  and \<open>metadata\<close> carry an \<open>id\<close> besides (the same JSON schema for both models). A
  missing \<open>value\<close> is the empty string: every test of the modelled code treats the two
  alike.
\<close>

record pair =
  key :: string
  "value" :: string

record row = pair +
  id :: nat

text \<open>Modelled from the spec: the models VersionTag and VersionMetadata are not among the
  sources. The spec's AssociationRecord is \<open>{versionId, attributeId, createdBy,
  createdAt}\<close>; the code names the attribute column \<open>tagId\<close> and \<open>metadataId\<close>, and
  the modifier \<open>filterVersionId\<close> selects the rows of a version. \<open>createdAt\<close> is set by
  the database and read by none of the modelled functions; it is left out.\<close>

record join_cols =
  versionId :: string
  createdBy :: string

record VersionTag = join_cols +
  tagId :: nat

record VersionMetadata = join_cols +
  metadataId :: nat

text \<open>The four tables. The order of a list is the order in which a select returns the
  rows. Modelled from the spec: the schema is not among the sources; the spec gives an
  attribute record an integer surrogate key, which the database assigns on insert.
  \<open>tag_seq\<close> and \<open>metadata_seq\<close> are the next keys to assign, the sequences of the two
  key columns; a key that an insert has taken is not assigned again, also when the
  transaction of the insert does not commit.
  \<open>fail_in\<close> stands for the failures of the store that the code cannot foresee (a lost
  connection, a violated constraint): \<open>Some n\<close> when the store answers \<open>n\<close> more queries
  and rejects the next request (a query or the COMMIT) and, the transaction being aborted,
  every later one; \<open>None\<close> when it rejects none.\<close>

record db =
  tag :: "row list"
  tag_seq :: nat
  version_tag :: "VersionTag list"
  metadata :: "row list"
  metadata_seq :: nat
  version_metadata :: "VersionMetadata list"
  fail_in :: "nat option"

text \<open>The errors the services throw: the TypeError of \<open>tags.forEach\<close> on an absent
  array, the ValidationError of an insert that violates the JSON schema of the model,
  and the error of a query that the store rejects.\<close>

datatype error = TypeError | ValidationError | DatabaseError

type_synonym 'a result = "error + 'a"

text \<open>\<open>utils.getObjectsByKeyValue\<close>: \<open>array.find\<close>, the first match or \<open>undefined\<close>.\<close>

definition getObjectsByKeyValue ::
  "'a pair_scheme list \<Rightarrow> string \<Rightarrow> string \<Rightarrow> 'a pair_scheme option" where
  "getObjectsByKeyValue array k v = find (\<lambda>obj. key obj = k \<and> value obj = v) array"

text \<open>An array argument that may be \<open>undefined\<close> or \<open>null\<close> (\<open>None\<close>). \<open>has_items\<close> is the
  guard \<open>tags && tags.length\<close>.\<close>

definition has_items :: "'a list option \<Rightarrow> bool" where
  "has_items tags = (case tags of None \<Rightarrow> False | Some ts \<Rightarrow> ts \<noteq> [])"

definition items :: "'a list option \<Rightarrow> 'a list" where
  "items tags = (case tags of None \<Rightarrow> [] | Some ts \<Rightarrow> ts)"

definition SYSTEM_USER :: string where
  "SYSTEM_USER = ''00000000-0000-0000-0000-000000000000''"

text \<open>The default parameter \<open>currentUserId = SYSTEM_USER\<close>.\<close>

definition or_SYSTEM_USER :: "string option \<Rightarrow> string" where
  "or_SYSTEM_USER currentUserId = (case currentUserId of None \<Rightarrow> SYSTEM_USER | Some u \<Rightarrow> u)"

subsection \<open>Queries on the tag tables\<close>

text \<open>The JSON schema of the models Tag and Metadata, validated before an insert:
  \<open>key\<close> and \<open>value\<close> are strings of 1 to 255 characters.\<close>

definition jsonSchema :: "'a pair_scheme \<Rightarrow> bool" where
  "jsonSchema p = (1 \<le> length (key p) \<and> length (key p) \<le> 255
                   \<and> 1 \<le> length (value p) \<and> length (value p) \<le> 255)"

text \<open>The inserted rows, with consecutive ids from \<open>n\<close> on.\<close>

primrec number_from :: "nat \<Rightarrow> pair list \<Rightarrow> row list" where
  "number_from n [] = []"
| "number_from n (p # ps) = \<lparr>key = key p, value = value p, id = n\<rparr> # number_from (Suc n) ps"

text \<open>\<open>Tag.query(trx).select()\<close>\<close>

definition Tag_select :: "db \<Rightarrow> row list" where
  "Tag_select w = tag w"

text \<open>\<open>Tag.query(trx).insert(newTags).returning('*')\<close>\<close>

definition Tag_insert :: "pair list \<Rightarrow> db \<Rightarrow> error + row list \<times> db" where
  "Tag_insert newTags w =
     (if list_all jsonSchema newTags then
        (let rows = number_from (tag_seq w) newTags
         in Inr (rows, w\<lparr>tag := tag w @ rows, tag_seq := tag_seq w + length newTags\<rparr>))
      else Inl ValidationError)"

text \<open>\<open>Tag.query(trx).joinRelated('versionTag').where('versionId', versionId)\<close>: one
  row per join row of the version, carrying the columns of the tag.\<close>

definition Tag_joinRelated_versionTag :: "string \<Rightarrow> db \<Rightarrow> row list" where
  "Tag_joinRelated_versionTag v w =
     concat (map (\<lambda>t. map (\<lambda>j. t)
                   (filter (\<lambda>j. tagId j = id t \<and> versionId j = v) (version_tag w)))
             (tag w))"

text \<open>\<open>VersionTag.query(trx).modify('filterVersionId', versionId)\<close>\<close>

definition VersionTag_filterVersionId :: "string \<Rightarrow> db \<Rightarrow> VersionTag list" where
  "VersionTag_filterVersionId v w = filter (\<lambda>j. versionId j = v) (version_tag w)"

text \<open>\<open>VersionTag.query(trx).insert(rows)\<close>\<close>

definition VersionTag_insert :: "VersionTag list \<Rightarrow> db \<Rightarrow> error + VersionTag list \<times> db" where
  "VersionTag_insert rows w = Inr (rows, w\<lparr>version_tag := version_tag w @ rows\<rparr>)"

text \<open>The rows of \<open>version_tag\<close> selected by
  \<open>.withGraphJoined('tag').where(params).modify('filterVersionId', versionId)\<close>, where
  \<open>params\<close> is \<open>tag.key\<close>, and \<open>tag.value\<close> too when the given tag has a value.\<close>

definition VersionTag_where :: "string \<Rightarrow> 'a pair_scheme \<Rightarrow> db \<Rightarrow> VersionTag \<Rightarrow> bool" where
  "VersionTag_where v tg w j =
     (versionId j = v
      \<and> list_ex (\<lambda>t. id t = tagId j \<and> key t = key tg
                      \<and> (if value tg \<noteq> [] then value t = value tg else True))
           (tag w))"

definition VersionTag_delete :: "string \<Rightarrow> 'a pair_scheme \<Rightarrow> db \<Rightarrow> error + nat \<times> db" where
  "VersionTag_delete v tg w =
     Inr (length (filter (VersionTag_where v tg w) (version_tag w)),
          w\<lparr>version_tag := filter (\<lambda>j. \<not> VersionTag_where v tg w j) (version_tag w)\<rparr>)"

text \<open>\<open>Tag.query(trx).withGraphJoined('versionTag').select('tag.id')
  .whereNull('versionTag.tagId')\<close>: the tags that no row of \<open>version_tag\<close> refers to.\<close>

definition Tag_whereNull_versionTag :: "db \<Rightarrow> row list" where
  "Tag_whereNull_versionTag w =
     filter (\<lambda>t. \<not> list_ex (\<lambda>j. tagId j = id t) (version_tag w)) (tag w)"

text \<open>\<open>Tag.query(trx).delete().whereIn('id', ids)\<close>, the number of deleted rows.\<close>

definition Tag_delete_whereIn :: "nat list \<Rightarrow> db \<Rightarrow> error + nat \<times> db" where
  "Tag_delete_whereIn ids w =
     Inr (length (filter (\<lambda>t. id t \<in> set ids) (tag w)),
          w\<lparr>tag := filter (\<lambda>t. id t \<notin> set ids) (tag w)\<rparr>)"

subsection \<open>Transactions\<close>

text \<open>
  A transaction handle works on its own copy of the tables; a commit that the store
  accepts makes the copy the database, a rollback and a commit that the store rejects
  leave the tables of the database as they were. A service function receives the optional
  external handle \<open>etrx\<close> and the database, and returns its result (or the error it
  throws), the handle it worked with, and the database.

  The status of a handle: still open, committed, rolled back, or closed by a commit that
  the store rejected.
\<close>

datatype trx_status = Active | Committed | RolledBack | CommitRejected

record trx =
  work :: db
  status :: trx_status

type_synonym 'a io = "trx \<times> db \<Rightarrow> 'a result \<times> trx \<times> db"

type_synonym 'a service = "trx option \<Rightarrow> db \<Rightarrow> 'a result \<times> trx \<times> db"

definition io_return :: "'a \<Rightarrow> 'a io" where
  "io_return x = (\<lambda>s. (Inr x, s))"

definition io_throw :: "error \<Rightarrow> 'a io" where
  "io_throw e = (\<lambda>s. (Inl e, s))"

text \<open>\<open>const x = await m; f x\<close>: an error thrown by \<open>m\<close> skips the rest.\<close>

definition io_bind :: "'a io \<Rightarrow> ('a \<Rightarrow> 'b io) \<Rightarrow> 'b io" where
  "io_bind m f = (\<lambda>s. case m s of (Inl e, s') \<Rightarrow> (Inl e, s') | (Inr x, s') \<Rightarrow> f x s')"

text \<open>The store has answered one more query.\<close>

definition answered :: "db \<Rightarrow> db" where
  "answered w = (case fail_in w of None \<Rightarrow> w | Some n \<Rightarrow> w\<lparr>fail_in := Some (n - 1)\<rparr>)"

text \<open>A query on the handle \<open>trx\<close>: rejected by the store when \<open>fail_in\<close> has run
  out, run on the tables of the handle otherwise. An error of the query builder itself
  (the validation of an insert) is thrown before the store is asked.\<close>

definition query :: "(db \<Rightarrow> error + 'a \<times> db) \<Rightarrow> 'a io" where
  "query q = (\<lambda>(t, d).
     if fail_in (work t) = Some 0 then (Inl DatabaseError, t, d)
     else (case q (work t) of
             Inl e \<Rightarrow> (Inl e, t, d)
           | Inr (x, w) \<Rightarrow> (Inr x, t\<lparr>work := answered w\<rparr>, d)))"

definition select :: "(db \<Rightarrow> 'a) \<Rightarrow> 'a io" where
  "select q = query (\<lambda>w. Inr (q w, w))"

text \<open>\<open>await service.f(..., trx)\<close>: a call that passes the handle on.\<close>

definition call :: "'a service \<Rightarrow> 'a io" where
  "call f = (\<lambda>(t, d). f (Some t) d)"

definition startTransaction :: "db \<Rightarrow> trx" where
  "startTransaction d = \<lparr>work = d, status = Active\<rparr>"

text \<open>The database after a transaction that did not commit: the tables as they were
  before it. The ids that its inserts took from the sequences of \<open>tag.id\<close> and
  \<open>metadata.id\<close> are not handed out again (a sequence is not rolled back).\<close>

definition abandoned :: "trx \<Rightarrow> db \<Rightarrow> db" where
  "abandoned t d = d\<lparr>tag_seq := tag_seq (work t), metadata_seq := metadata_seq (work t)\<rparr>"

text \<open>\<open>await trx.commit()\<close>. The commit is one more request to the store, which rejects
  it when \<open>fail_in\<close> has run out. The promise that \<open>trx.commit()\<close> returns is fulfilled
  in both cases: knex catches the error of a rejected COMMIT and reports it on the
  promise of the transaction (\<open>trx.executionPromise\<close>), which the service functions do
  not look at. So \<open>commit\<close> throws nothing; after a rejected COMMIT nothing of the
  transaction is in the database.\<close>

definition commit :: "trx \<times> db \<Rightarrow> trx \<times> db" where
  "commit s =
     (case s of (t, d) \<Rightarrow>
        if fail_in (work t) = Some 0 then (t\<lparr>status := CommitRejected\<rparr>, abandoned t d)
        else (t\<lparr>status := Committed\<rparr>, work t))"

text \<open>\<open>await trx.rollback()\<close>\<close>

definition rollback :: "trx \<times> db \<Rightarrow> trx \<times> db" where
  "rollback s = (case s of (t, d) \<Rightarrow> (t\<lparr>status := RolledBack\<rparr>, abandoned t d))"

text \<open>
  The frame every service function is written in. The start of a transaction always
  succeeds in the model.
  \<^verbatim>\<open>
  let trx;
  try {
    trx = etrx ? etrx : await Model.startTransaction();
    ... body ...
    if (!etrx) await trx.commit();
    return Promise.resolve(response);
  } catch (err) {
    if (!etrx && trx) await trx.rollback();
    throw err;
  }
  \<close>
\<close>

definition transactional :: "trx option \<Rightarrow> 'a io \<Rightarrow> db \<Rightarrow> 'a result \<times> trx \<times> db" where
  "transactional etrx body d =
     (case etrx of
        Some trx \<Rightarrow> body (trx, d)
      | None \<Rightarrow>
          (case body (startTransaction d, d) of
             (Inr response, s) \<Rightarrow> (Inr response, commit s)
           | (Inl err, s) \<Rightarrow> (Inl err, rollback s)))"

subsection \<open>The tag service\<close>

text \<open>The loop of \<open>createTags\<close> over the incoming tags: the tags found in the table, with
  the id of the first row that matches, and the tags to insert.\<close>

definition existing_of :: "row list \<Rightarrow> 'a pair_scheme list \<Rightarrow> row list" where
  "existing_of allTags tags =
     List.map_filter
       (\<lambda>p. map_option (\<lambda>m. \<lparr>key = key p, value = value p, id = id m\<rparr>)
              (getObjectsByKeyValue allTags (key p) (value p)))
       tags"

definition new_of :: "row list \<Rightarrow> 'a pair_scheme list \<Rightarrow> pair list" where
  "new_of allTags tags =
     map (\<lambda>p. \<lparr>key = key p, value = value p\<rparr>)
       (filter (\<lambda>p. getObjectsByKeyValue allTags (key p) (value p) = None) tags)"

definition createTags :: "'a pair_scheme list option \<Rightarrow> row list service" where
  "createTags tags etrx =
     transactional etrx
       (io_bind (select Tag_select) (\<lambda>allTags.
          case tags of
            None \<Rightarrow> io_throw TypeError
          | Some ts \<Rightarrow>
              (let existingTags = existing_of allTags ts;
                   newTags = new_of allTags ts
               in if newTags \<noteq> [] then
                    io_bind (query (Tag_insert newTags)) (\<lambda>newTagset.
                      io_return (existingTags @ newTagset))
                  else io_return existingTags)))"

definition pruneOrphanedTags :: "nat service" where
  "pruneOrphanedTags etrx =
     transactional etrx
       (io_bind (select Tag_whereNull_versionTag) (\<lambda>deletedTagIds.
          query (Tag_delete_whereIn (map id deletedTagIds))))"

text \<open>A promise that is started and not awaited: when it rejects, nothing is thrown
  into the function that started it.\<close>

definition unawaited :: "'a io \<Rightarrow> 'a option io" where
  "unawaited m = (\<lambda>s. case m s of (Inl e, s') \<Rightarrow> (Inr None, s') | (Inr x, s') \<Rightarrow> (Inr (Some x), s'))"

text \<open>The callbacks of \<open>await tags.forEach(async tag => ...)\<close> in \<open>dissociateTags\<close>.
  \<open>forEach\<close> returns \<open>undefined\<close>, so the promises of the callbacks are not awaited.
  Their delete queries are issued on the handle in the order of the array, before the
  query of the pruning that follows, and the handle runs its queries one after the
  other: the model runs them in that order. A callback adds its count to \<open>response\<close>
  when its query has been answered.\<close>

primrec dissociate_each :: "string \<Rightarrow> 'a pair_scheme list \<Rightarrow> nat \<Rightarrow> nat io" where
  "dissociate_each v [] response = io_return response"
| "dissociate_each v (tg # tags) response =
     io_bind (unawaited (query (VersionTag_delete v tg))) (\<lambda>answer.
       dissociate_each v tags
         (case answer of
            None \<Rightarrow> response
          | Some count \<Rightarrow> if count \<noteq> 0 then response + count else response))"

definition dissociateTags :: "string \<Rightarrow> 'a pair_scheme list option \<Rightarrow> nat service" where
  "dissociateTags v tags etrx =
     transactional etrx
       (case tags of
          None \<Rightarrow> io_throw TypeError
        | Some ts \<Rightarrow>
            io_bind (dissociate_each v ts 0) (\<lambda>response.
              io_bind (call pruneOrphanedTags) (\<lambda>pruned.
                io_return response)))"

definition associateTags ::
  "string \<Rightarrow> 'a pair_scheme list option \<Rightarrow> string option \<Rightarrow> row list service" where
  "associateTags v tags currentUserId etrx =
     transactional etrx
       (if has_items tags then
          io_bind (call (createTags tags)) (\<lambda>dbTags.
            io_bind (select (VersionTag_filterVersionId v)) (\<lambda>associatedTags.
              (let newJoins = filter (\<lambda>t. \<not> list_ex (\<lambda>j. tagId j = id t) associatedTags) dbTags
               in io_bind
                    (if newJoins \<noteq> [] then
                       query (VersionTag_insert
                         (map (\<lambda>t. \<lparr>versionId = v, createdBy = or_SYSTEM_USER currentUserId,
                                     tagId = id t\<rparr>) newJoins))
                     else io_return [])
                    (\<lambda>inserted. io_return dbTags))))
        else io_return [])"

definition replaceTags ::
  "string \<Rightarrow> 'a pair_scheme list option \<Rightarrow> string option \<Rightarrow> row list service" where
  "replaceTags v tags currentUserId etrx =
     transactional etrx
       (if has_items tags then
          io_bind (select (Tag_joinRelated_versionTag v)) (\<lambda>current.
            (let dissociate =
                   filter (\<lambda>t. getObjectsByKeyValue (items tags) (key t) (value t) = None) current
             in io_bind
                  (if dissociate \<noteq> [] then call (dissociateTags v (Some dissociate))
                   else io_return 0)
                  (\<lambda>dissociated. call (associateTags v tags currentUserId))))
        else io_return [])"

subsection \<open>Queries on the metadata tables\<close>

text \<open>\<open>Metadata.query(trx).select()\<close>\<close>

definition Metadata_select :: "db \<Rightarrow> row list" where
  "Metadata_select w = metadata w"

text \<open>\<open>Metadata.query(trx).insert(newMetadata).returning('*')\<close>\<close>

definition Metadata_insert :: "pair list \<Rightarrow> db \<Rightarrow> error + row list \<times> db" where
  "Metadata_insert newMetadata w =
     (if list_all jsonSchema newMetadata then
        (let rows = number_from (metadata_seq w) newMetadata
         in Inr (rows, w\<lparr>metadata := metadata w @ rows,
                          metadata_seq := metadata_seq w + length newMetadata\<rparr>))
      else Inl ValidationError)"

text \<open>\<open>VersionMetadata.query(trx).modify('filterVersionId', versionId)\<close>\<close>

definition VersionMetadata_filterVersionId :: "string \<Rightarrow> db \<Rightarrow> VersionMetadata list" where
  "VersionMetadata_filterVersionId v w = filter (\<lambda>j. versionId j = v) (version_metadata w)"

text \<open>\<open>VersionMetadata.query(trx).insert(rows)\<close>\<close>

definition VersionMetadata_insert ::
  "VersionMetadata list \<Rightarrow> db \<Rightarrow> error + VersionMetadata list \<times> db" where
  "VersionMetadata_insert rows w =
     Inr (rows, w\<lparr>version_metadata := version_metadata w @ rows\<rparr>)"

text \<open>\<open>VersionMetadata.query(trx).whereIn('metadataId', ids)
  .modify('filterVersionId', versionId).delete()\<close>\<close>

definition VersionMetadata_delete_whereIn :: "nat list \<Rightarrow> string \<Rightarrow> db \<Rightarrow> error + nat \<times> db" where
  "VersionMetadata_delete_whereIn ids v w =
     Inr (length (filter (\<lambda>j. metadataId j \<in> set ids \<and> versionId j = v) (version_metadata w)),
          w\<lparr>version_metadata :=
               filter (\<lambda>j. \<not> (metadataId j \<in> set ids \<and> versionId j = v)) (version_metadata w)\<rparr>)"

text \<open>\<open>Metadata.query(trx).withGraphJoined('versionMetadata').select('metadata.id')
  .whereNull('versionMetadata.metadataId')\<close>\<close>

definition Metadata_whereNull_versionMetadata :: "db \<Rightarrow> row list" where
  "Metadata_whereNull_versionMetadata w =
     filter (\<lambda>m. \<not> list_ex (\<lambda>j. metadataId j = id m) (version_metadata w)) (metadata w)"

text \<open>\<open>Metadata.query(trx).delete().whereIn('id', ids)\<close>\<close>

definition Metadata_delete_whereIn :: "nat list \<Rightarrow> db \<Rightarrow> error + nat \<times> db" where
  "Metadata_delete_whereIn ids w =
     Inr (length (filter (\<lambda>m. id m \<in> set ids) (metadata w)),
          w\<lparr>metadata := filter (\<lambda>m. id m \<notin> set ids) (metadata w)\<rparr>)"

subsection \<open>The metadata service\<close>

definition createMetadata :: "'a pair_scheme list option \<Rightarrow> row list service" where
  "createMetadata metadata_in etrx =
     transactional etrx
       (io_bind (select Metadata_select) (\<lambda>allMetadata.
          case metadata_in of
            None \<Rightarrow> io_throw TypeError
          | Some ms \<Rightarrow>
              (let existingMetadata = existing_of allMetadata ms;
                   newMetadata = new_of allMetadata ms
               in if newMetadata \<noteq> [] then
                    io_bind (query (Metadata_insert newMetadata)) (\<lambda>newMetadataRecords.
                      io_return (existingMetadata @ newMetadataRecords))
                  else io_return existingMetadata)))"

definition pruneOrphanedMetadata :: "nat service" where
  "pruneOrphanedMetadata etrx =
     transactional etrx
       (io_bind (select Metadata_whereNull_versionMetadata) (\<lambda>deletedMetadataIds.
          query (Metadata_delete_whereIn (map id deletedMetadataIds))))"

definition associateMetadata ::
  "string \<Rightarrow> 'a pair_scheme list option \<Rightarrow> string option \<Rightarrow> VersionMetadata list service" where
  "associateMetadata v metadata_in currentUserId etrx =
     transactional etrx
       (if has_items metadata_in then
          io_bind (call (createMetadata metadata_in)) (\<lambda>dbMetadata.
            io_bind (select (VersionMetadata_filterVersionId v)) (\<lambda>associatedMetadata.
              io_bind
                (if associatedMetadata \<noteq> [] then
                   (let dissociateMetadata =
                          filter (\<lambda>vm. \<not> list_ex (\<lambda>m. id m = metadataId vm) dbMetadata)
                            associatedMetadata
                    in if dissociateMetadata \<noteq> [] then
                         io_bind
                           (query (VersionMetadata_delete_whereIn
                                     (map metadataId dissociateMetadata) v))
                           (\<lambda>deleted. call pruneOrphanedMetadata)
                       else io_return 0)
                 else io_return 0)
                (\<lambda>pruned.
                   (let newJoins =
                          (if associatedMetadata \<noteq> [] then
                             filter (\<lambda>m. \<not> list_ex (\<lambda>vm. metadataId vm = id m) associatedMetadata)
                               dbMetadata
                           else dbMetadata)
                    in if newJoins \<noteq> [] then
                         query (VersionMetadata_insert
                           (map (\<lambda>m. \<lparr>versionId = v, createdBy = or_SYSTEM_USER currentUserId,
                                       metadataId = id m\<rparr>) newJoins))
                       else io_return []))))
        else io_return [])"

section \<open>What a call does to the tables of the handle it works on\<close>

text \<open>
  The functions \<open>f_on\<close> give the result of a service call and the tables it leaves, as a
  function of the tables of the handle it runs on, when the store rejects no query. They
  are derived from the service functions above: the lemmas \<open>f_Some\<close> below prove that a
  call with a handle does exactly this to the handle's tables, and the lemmas \<open>f_None\<close>
  that a call without one commits exactly this or rolls back.
\<close>

definition createTags_on :: "'a pair_scheme list option \<Rightarrow> db \<Rightarrow> row list result \<times> db" where
  "createTags_on tags w =
     (case tags of
        None \<Rightarrow> (Inl TypeError, w)
      | Some ts \<Rightarrow>
          if new_of (tag w) ts \<noteq> [] then
            (if list_all jsonSchema (new_of (tag w) ts) then
               (Inr (existing_of (tag w) ts @ number_from (tag_seq w) (new_of (tag w) ts)),
                w\<lparr>tag := tag w @ number_from (tag_seq w) (new_of (tag w) ts),
                  tag_seq := tag_seq w + length (new_of (tag w) ts)\<rparr>)
             else (Inl ValidationError, w))
          else (Inr (existing_of (tag w) ts), w))"

definition referenced_tag :: "db \<Rightarrow> row \<Rightarrow> bool" where
  "referenced_tag w t = list_ex (\<lambda>j. tagId j = id t) (version_tag w)"

definition pruneOrphanedTags_on :: "db \<Rightarrow> nat result \<times> db" where
  "pruneOrphanedTags_on w =
     (Inr (length (filter (\<lambda>t. \<not> referenced_tag w t) (tag w))),
      w\<lparr>tag := filter (referenced_tag w) (tag w)\<rparr>)"

primrec dissociate_each_on :: "string \<Rightarrow> 'a pair_scheme list \<Rightarrow> nat \<Rightarrow> db \<Rightarrow> nat \<times> db" where
  "dissociate_each_on v [] response w = (response, w)"
| "dissociate_each_on v (tg # tags) response w =
     (let count = length (filter (VersionTag_where v tg w) (version_tag w))
      in dissociate_each_on v tags (if count \<noteq> 0 then response + count else response)
           (w\<lparr>version_tag := filter (\<lambda>j. \<not> VersionTag_where v tg w j) (version_tag w)\<rparr>))"

definition dissociateTags_on :: "string \<Rightarrow> 'a pair_scheme list option \<Rightarrow> db \<Rightarrow> nat result \<times> db" where
  "dissociateTags_on v tags w =
     (case tags of
        None \<Rightarrow> (Inl TypeError, w)
      | Some ts \<Rightarrow>
          (Inr (fst (dissociate_each_on v ts 0 w)),
           snd (pruneOrphanedTags_on (snd (dissociate_each_on v ts 0 w)))))"

definition join_new_tags :: "string \<Rightarrow> string option \<Rightarrow> row list \<Rightarrow> db \<Rightarrow> db" where
  "join_new_tags v currentUserId dbTags w =
     (let newJoins = filter (\<lambda>t. \<not> list_ex (\<lambda>j. tagId j = id t)
                                   (VersionTag_filterVersionId v w)) dbTags
      in if newJoins \<noteq> [] then
           w\<lparr>version_tag := version_tag w @
               map (\<lambda>t. \<lparr>versionId = v, createdBy = or_SYSTEM_USER currentUserId,
                         tagId = id t\<rparr>) newJoins\<rparr>
         else w)"

definition associateTags_on ::
  "string \<Rightarrow> 'a pair_scheme list option \<Rightarrow> string option \<Rightarrow> db \<Rightarrow> row list result \<times> db" where
  "associateTags_on v tags currentUserId w =
     (if has_items tags then
        (case createTags_on tags w of
           (Inl e, w1) \<Rightarrow> (Inl e, w1)
         | (Inr dbTags, w1) \<Rightarrow> (Inr dbTags, join_new_tags v currentUserId dbTags w1))
      else (Inr [], w))"

definition to_dissociate :: "string \<Rightarrow> 'a pair_scheme list option \<Rightarrow> db \<Rightarrow> row list" where
  "to_dissociate v tags w =
     filter (\<lambda>t. getObjectsByKeyValue (items tags) (key t) (value t) = None)
       (Tag_joinRelated_versionTag v w)"

definition replaceTags_on ::
  "string \<Rightarrow> 'a pair_scheme list option \<Rightarrow> string option \<Rightarrow> db \<Rightarrow> row list result \<times> db" where
  "replaceTags_on v tags currentUserId w =
     (if has_items tags then
        (if to_dissociate v tags w \<noteq> [] then
           associateTags_on v tags currentUserId
             (snd (dissociateTags_on v (Some (to_dissociate v tags w)) w))
         else associateTags_on v tags currentUserId w)
      else (Inr [], w))"

definition createMetadata_on :: "'a pair_scheme list option \<Rightarrow> db \<Rightarrow> row list result \<times> db" where
  "createMetadata_on metadata_in w =
     (case metadata_in of
        None \<Rightarrow> (Inl TypeError, w)
      | Some ms \<Rightarrow>
          if new_of (metadata w) ms \<noteq> [] then
            (if list_all jsonSchema (new_of (metadata w) ms) then
               (Inr (existing_of (metadata w) ms
                       @ number_from (metadata_seq w) (new_of (metadata w) ms)),
                w\<lparr>metadata := metadata w @ number_from (metadata_seq w) (new_of (metadata w) ms),
                  metadata_seq := metadata_seq w + length (new_of (metadata w) ms)\<rparr>)
             else (Inl ValidationError, w))
          else (Inr (existing_of (metadata w) ms), w))"

definition referenced_metadata :: "db \<Rightarrow> row \<Rightarrow> bool" where
  "referenced_metadata w m = list_ex (\<lambda>j. metadataId j = id m) (version_metadata w)"

definition pruneOrphanedMetadata_on :: "db \<Rightarrow> nat result \<times> db" where
  "pruneOrphanedMetadata_on w =
     (Inr (length (filter (\<lambda>m. \<not> referenced_metadata w m) (metadata w))),
      w\<lparr>metadata := filter (referenced_metadata w) (metadata w)\<rparr>)"

definition dissociate_metadata :: "string \<Rightarrow> row list \<Rightarrow> db \<Rightarrow> db" where
  "dissociate_metadata v dbMetadata w =
     (let associatedMetadata = VersionMetadata_filterVersionId v w;
          dissociateMetadata =
            filter (\<lambda>vm. \<not> list_ex (\<lambda>m. id m = metadataId vm) dbMetadata) associatedMetadata
      in if associatedMetadata \<noteq> [] \<and> dissociateMetadata \<noteq> [] then
           snd (pruneOrphanedMetadata_on
             (w\<lparr>version_metadata :=
                  filter (\<lambda>j. \<not> (metadataId j \<in> set (map metadataId dissociateMetadata)
                                  \<and> versionId j = v))
                    (version_metadata w)\<rparr>))
         else w)"

definition new_metadata_joins ::
  "string \<Rightarrow> string option \<Rightarrow> row list \<Rightarrow> db \<Rightarrow> VersionMetadata list" where
  "new_metadata_joins v currentUserId dbMetadata w =
     (let associatedMetadata = VersionMetadata_filterVersionId v w
      in map (\<lambda>m. \<lparr>versionId = v, createdBy = or_SYSTEM_USER currentUserId, metadataId = id m\<rparr>)
           (if associatedMetadata \<noteq> [] then
              filter (\<lambda>m. \<not> list_ex (\<lambda>vm. metadataId vm = id m) associatedMetadata) dbMetadata
            else dbMetadata))"

definition associateMetadata_on ::
  "string \<Rightarrow> 'a pair_scheme list option \<Rightarrow> string option \<Rightarrow> db
     \<Rightarrow> VersionMetadata list result \<times> db" where
  "associateMetadata_on v metadata_in currentUserId w =
     (if has_items metadata_in then
        (case createMetadata_on metadata_in w of
           (Inl e, w1) \<Rightarrow> (Inl e, w1)
         | (Inr dbMetadata, w1) \<Rightarrow>
             (let joins = new_metadata_joins v currentUserId dbMetadata w1;
                  w2 = dissociate_metadata v dbMetadata w1
              in (Inr joins,
                  if joins \<noteq> [] then w2\<lparr>version_metadata := version_metadata w2 @ joins\<rparr>
                  else w2)))
      else (Inr [], w))"

text \<open>The two ways a call leaves the handle and the database. As the owner of the
  transaction: when it returns a result, it has asked for the commit, and the database is
  the handle's tables if the store accepted the commit, and has the tables it had before
  if the store rejected it; when it throws, it has rolled back and the database has the
  tables it had before. As a participant in the caller's handle \<open>t0\<close>: neither committed
  nor rolled back, the database untouched.\<close>

definition owns :: "db \<Rightarrow> 'a result \<times> trx \<times> db \<Rightarrow> bool" where
  "owns d out =
     (case out of
        (Inr x, t, d') \<Rightarrow>
          (if fail_in (work t) = Some 0 then status t = CommitRejected \<and> d' = abandoned t d
           else status t = Committed \<and> d' = work t)
      | (Inl e, t, d') \<Rightarrow> status t = RolledBack \<and> d' = abandoned t d)"

definition inherits :: "trx \<Rightarrow> db \<Rightarrow> 'a result \<times> trx \<times> db \<Rightarrow> bool" where
  "inherits t0 d out = (case out of (r, t, d') \<Rightarrow> status t = status t0 \<and> d' = d)"

text \<open>A computation on a handle that leaves the status of the handle and the database
  as they are.\<close>

definition neutral :: "'a io \<Rightarrow> bool" where
  "neutral m = (\<forall>t d. case m (t, d) of (r, t', d') \<Rightarrow> status t' = status t \<and> d' = d)"

text \<open>A service function written in the frame around such a computation.\<close>

definition framed :: "'a service \<Rightarrow> bool" where
  "framed f = (\<exists>body. neutral body \<and> (\<forall>etrx d. f etrx d = transactional etrx body d))"

text \<open>A small database: version \<open>v1\<close> carries the tag and the metadata \<open>a = 1\<close>.\<close>

definition sample_db :: db where
  "sample_db =
     \<lparr>tag = [\<lparr>key = ''a'', value = ''1'', id = 1\<rparr>],
      tag_seq = 2,
      version_tag = [\<lparr>versionId = ''v1'', createdBy = ''u1'', tagId = 1\<rparr>],
      metadata = [\<lparr>key = ''a'', value = ''1'', id = 1\<rparr>],
      metadata_seq = 2,
      version_metadata = [\<lparr>versionId = ''v1'', createdBy = ''u1'', metadataId = 1\<rparr>],
      fail_in = None\<rparr>"

text \<open>Two tags and two metadata records; version \<open>v2\<close> refers to the first of each,
  nothing refers to the second.\<close>

definition shared_db :: db where
  "shared_db =
     \<lparr>tag = [\<lparr>key = ''a'', value = ''1'', id = 1\<rparr>, \<lparr>key = ''b'', value = ''2'', id = 2\<rparr>],
      tag_seq = 3,
      version_tag = [\<lparr>versionId = ''v2'', createdBy = ''u1'', tagId = 1\<rparr>],
      metadata = [\<lparr>key = ''a'', value = ''1'', id = 1\<rparr>, \<lparr>key = ''b'', value = ''2'', id = 2\<rparr>],
      metadata_seq = 3,
      version_metadata = [\<lparr>versionId = ''v2'', createdBy = ''u1'', metadataId = 1\<rparr>],
      fail_in = None\<rparr>"

section \<open>Invariants of the tag tables\<close>

text \<open>The primary key of \<open>tag\<close> and its sequence: ids are unique and below the next
  value of the sequence.\<close>

definition tag_ids_ok :: "db \<Rightarrow> bool" where
  "tag_ids_ok w = (distinct (map id (tag w)) \<and> list_all (\<lambda>t. id t < tag_seq w) (tag w))"

text \<open>The pair of \<open>t\<close> is among the incoming pairs \<open>S\<close>.\<close>

definition in_pairs :: "'a pair_scheme list \<Rightarrow> 'b pair_scheme \<Rightarrow> bool" where
  "in_pairs S t = list_ex (\<lambda>p. key p = key t \<and> value p = value t) S"

text \<open>The tags joined to version \<open>v\<close> are those of the incoming list \<open>S\<close>: every tag
  joined to \<open>v\<close> has its pair in \<open>S\<close>, and every pair of \<open>S\<close> has a record (the first
  match, as \<open>createTags\<close> finds it) that is joined to \<open>v\<close>.\<close>

definition settled :: "string \<Rightarrow> 'a pair_scheme list \<Rightarrow> db \<Rightarrow> bool" where
  "settled v S w =
     (list_all (in_pairs S) (Tag_joinRelated_versionTag v w)
      \<and> list_all
          (\<lambda>p. case getObjectsByKeyValue (tag w) (key p) (value p) of
                  None \<Rightarrow> False
                | Some m \<Rightarrow> list_ex (\<lambda>j. tagId j = id m) (VersionTag_filterVersionId v w))
          S)"

text \<open>The rows of \<open>version_tag\<close> refer to ids the sequence has handed out (the foreign
  key on \<open>tag.id\<close>).\<close>

definition version_tag_ids_ok :: "db \<Rightarrow> bool" where
  "version_tag_ids_ok w = list_all (\<lambda>j. tagId j < tag_seq w) (version_tag w)"

section \<open>Properties of the authorization middleware\<close>

lemma strict_eq_bool_str [simp]: "strict_eq (JBool b) (JStr s) = False"
  by simp

text \<open>The test \<open>!permission === Permissions.READ\<close> negates \<open>permission\<close> first and compares
  the resulting boolean with a string, so it is false for every permission.\<close>

lemma not_permission_is_READ: "strict_eq (JBool (\<not> truthy permission)) Permissions_READ = False"
  by (simp add: Permissions_READ_def)

lemma hasPermission_public:
  assumes "keycloak_enabled cfg" and "truthy (currentObject req)"
    and "truthy (getprop (currentObject req) ''public'')"
  shows "hasPermission cfg rp permission req = Next"
  using assms by (simp add: hasPermission_def hasPermission_try_def not_permission_is_READ)

text \<open>What the two middleware functions decide, as the code is written:
  \<open>checkAppMode\<close> tests the property \<open>AuthType\<close> of the user object, and
  \<open>hasPermission\<close> lets every request on a public object pass.\<close>

lemma checkAppMode_reads_AuthType:
  "checkAppMode cfg req =
     (if (getAppAuthMode cfg = BASICAUTH \<and> truthy (currentUser req)
            \<and> getprop (currentUser req) ''AuthType'' = AuthType_BEARER)
         \<or> (getAppAuthMode cfg = OIDCAUTH \<and> truthy (currentUser req)
            \<and> getprop (currentUser req) ''AuthType'' = AuthType_BASIC)
      then Problem 501 ''Current application mode does not support incoming authentication type''
      else Next)"
proof -
  have eq: "strict_eq a (JStr s) = (a = JStr s)" for a s
    by (cases a) simp_all
  show ?thesis
    by (simp add: checkAppMode_def checkAppMode_try_def Let_def AuthType_BEARER_def
        AuthType_BASIC_def eq)
qed

lemma checkAppMode_without_AuthType:
  assumes "getprop (currentUser req) ''AuthType'' = JUndefined"
  shows "checkAppMode cfg req = Next"
  using assms
  by (simp add: checkAppMode_reads_AuthType AuthType_BEARER_def AuthType_BASIC_def)

lemma hasPermission_Next_iff:
  "(hasPermission cfg rp permission req = Next) =
     (\<not> keycloak_enabled cfg
      \<or> (truthy (currentObject req)
          \<and> (truthy (getprop (currentObject req) ''public'')
              \<or> (truthy (currentUser req)
                  \<and> strict_eq (getprop (currentUser req) ''authType'') AuthType_BEARER
                  \<and> truthy (getprop (currentUser req) ''tokenPayload'')
                  \<and> truthy (getprop (getprop (currentUser req) ''tokenPayload'') ''sub'')
                  \<and> (\<exists>permissions.
                        rp (params_objId req)
                           (getprop (getprop (currentUser req) ''tokenPayload'') ''sub'')
                          = Inr permissions
                        \<and> list_ex (\<lambda>p. strict_eq (getprop p ''code'') permission) permissions)))))"
  by (auto simp: hasPermission_def hasPermission_try_def not_permission_is_READ
      split: sum.splits)

text \<open>
  C1. The claim: the grant lookup is skipped exactly when the object is public and the
  requested permission is READ; a non-READ permission on a public object without a bearer
  identity is denied. The code skips the lookup for every permission on a public object:
  a DELETE request on a public object from a request with no user passes.
\<close>

theorem hasPermission_public_delete_passes:
  "hasPermission \<lparr>basicAuth_enabled = False, keycloak_enabled = True\<rparr>
     (\<lambda>objId sub. Inr [])
     (JStr ''DELETE'')
     \<lparr>currentUser = JUndefined,
      currentObject = JObj [(''id'', JStr ''obj-1''), (''public'', JBool True)],
      params_objId = JStr ''obj-1''\<rparr> = Next"
  by (simp add: hasPermission_def hasPermission_try_def Permissions_READ_def)

text \<open>
  C4. The claim: BASICAUTH mode with a BEARER request, and OIDCAUTH mode with a BASIC
  request, are rejected with 501. The code reads the property \<open>AuthType\<close> of the current
  user, while the user object carries \<open>authType\<close> (as \<open>hasPermission\<close> reads it): a BEARER
  request in BASICAUTH mode passes.
\<close>

theorem checkAppMode_basic_mode_bearer_passes:
  "checkAppMode \<lparr>basicAuth_enabled = True, keycloak_enabled = False\<rparr>
     \<lparr>currentUser = JObj [(''authType'', JStr ''BEARER''),
                          (''tokenPayload'', JObj [(''sub'', JStr ''u1'')])],
      currentObject = JUndefined,
      params_objId = JUndefined\<rparr> = Next"
  by (simp add: checkAppMode_def checkAppMode_try_def getAppAuthMode_def AuthType_BEARER_def
      AuthType_BASIC_def)

text \<open>
  C9. With permission enforcement active and no object attached to the request,
  \<open>hasPermission\<close> sends status 403 with the generic detail; and whatever the request, a
  request that does not pass gets exactly that response, so no denial is a 404 and the
  missing object is not distinguishable from any other denial.
\<close>

theorem hasPermission_missing_object_403:
  "(keycloak_enabled cfg \<and> \<not> truthy (currentObject req) \<longrightarrow>
      hasPermission cfg rp permission req
        = Problem 403 ''User lacks permission to complete this action'')
   \<and> (hasPermission cfg rp permission req \<noteq> Next \<longrightarrow>
      hasPermission cfg rp permission req
        = Problem 403 ''User lacks permission to complete this action'')"
  by (simp add: hasPermission_def hasPermission_try_def split: sum.splits)

theorem hasPermission_missing_object_403_witness:
  "keycloak_enabled \<lparr>basicAuth_enabled = False, keycloak_enabled = True\<rparr>
   \<and> \<not> truthy JUndefined
   \<and> hasPermission \<lparr>basicAuth_enabled = False, keycloak_enabled = True\<rparr>
        (\<lambda>objId sub. Inr []) (JStr ''READ'')
        \<lparr>currentUser = JUndefined, currentObject = JUndefined, params_objId = JStr ''obj-1''\<rparr>
      = Problem 403 ''User lacks permission to complete this action''
   \<and> hasPermission \<lparr>basicAuth_enabled = False, keycloak_enabled = True\<rparr>
        (\<lambda>objId sub. Inr []) (JStr ''READ'')
        \<lparr>currentUser = JUndefined, currentObject = JUndefined, params_objId = JStr ''obj-1''\<rparr>
      \<noteq> Next"
proof -
  let ?cfg = "\<lparr>basicAuth_enabled = False, keycloak_enabled = True\<rparr>"
  let ?req = "\<lparr>currentUser = JUndefined, currentObject = JUndefined,
               params_objId = JStr ''obj-1''\<rparr>"
  have pre: "keycloak_enabled ?cfg \<and> \<not> truthy (currentObject ?req)"
    by simp
  have "hasPermission ?cfg (\<lambda>objId sub. Inr []) (JStr ''READ'') ?req
          = Problem 403 ''User lacks permission to complete this action''"
    using hasPermission_missing_object_403 [of ?cfg ?req "\<lambda>objId sub. Inr []" "JStr ''READ''"] pre
    by blast
  then show ?thesis
    by simp
qed

section \<open>Service calls and the tables of their handle\<close>

lemma answered_no_fault [simp]: "fail_in w = None \<Longrightarrow> answered w = w"
  by (simp add: answered_def)

lemma query_no_fault:
  assumes "fail_in (work t) = None"
  shows "query q (t, d) =
     (case q (work t) of
        Inl e \<Rightarrow> (Inl e, t, d)
      | Inr (x, w) \<Rightarrow> (Inr x, t\<lparr>work := answered w\<rparr>, d))"
  using assms by (simp add: query_def)

lemma select_no_fault:
  assumes "fail_in (work t) = None"
  shows "select q (t, d) = (Inr (q (work t)), t, d)"
  using assms by (simp add: select_def query_def)

lemma createTags_on_fail_in [simp]: "fail_in (snd (createTags_on tags w)) = fail_in w"
  by (simp add: createTags_on_def split: option.splits)

lemma createTags_Some:
  assumes "fail_in (work t) = None"
  shows "createTags tags (Some t) d
     = (fst (createTags_on tags (work t)), t\<lparr>work := snd (createTags_on tags (work t))\<rparr>, d)"
  using assms
  by (simp add: createTags_def createTags_on_def transactional_def io_bind_def io_return_def
      io_throw_def select_no_fault query_no_fault Tag_select_def Tag_insert_def Let_def
      split: option.splits)

lemma orphan_ids: "(id t \<in> id ` set (Tag_whereNull_versionTag w)) = (\<exists>t'\<in>set (tag w). id t' = id t \<and> \<not> referenced_tag w t')"
  by (force simp: Tag_whereNull_versionTag_def referenced_tag_def image_iff)

lemma referenced_tag_cong: "id t' = id t \<Longrightarrow> referenced_tag w t' = referenced_tag w t"
  by (simp add: referenced_tag_def)

lemma orphan_ids': "t \<in> set (tag w) \<Longrightarrow> (id t \<in> id ` set (Tag_whereNull_versionTag w)) = (\<not> referenced_tag w t)"
  unfolding orphan_ids using referenced_tag_cong by blast

lemma pruneOrphanedTags_on_fail_in [simp]: "fail_in (snd (pruneOrphanedTags_on w)) = fail_in w"
  by (simp add: pruneOrphanedTags_on_def)

lemma pruneOrphanedTags_Some:
  assumes "fail_in (work t) = None"
  shows "pruneOrphanedTags (Some t) d
     = (fst (pruneOrphanedTags_on (work t)), t\<lparr>work := snd (pruneOrphanedTags_on (work t))\<rparr>, d)"
proof -
  have a: "filter (\<lambda>x. id x \<in> id ` set (Tag_whereNull_versionTag (work t))) (tag (work t))
      = filter (\<lambda>x. \<not> referenced_tag (work t) x) (tag (work t))"
    by (rule filter_cong) (simp_all add: orphan_ids')
  have b: "filter (\<lambda>x. id x \<notin> id ` set (Tag_whereNull_versionTag (work t))) (tag (work t))
      = filter (referenced_tag (work t)) (tag (work t))"
    by (rule filter_cong) (simp_all add: orphan_ids')
  show ?thesis
    using assms
    by (simp add: pruneOrphanedTags_def pruneOrphanedTags_on_def transactional_def io_bind_def
        select_no_fault query_no_fault Tag_delete_whereIn_def a b)
qed

lemma dissociate_each_on_fail_in [simp]:
  "fail_in (snd (dissociate_each_on v tags n w)) = fail_in w"
  by (induction tags arbitrary: n w) (simp_all add: Let_def)

lemma dissociate_each_run:
  assumes "fail_in (work t) = None"
  shows "dissociate_each v tags n (t, d)
     = (Inr (fst (dissociate_each_on v tags n (work t))),
        t\<lparr>work := snd (dissociate_each_on v tags n (work t))\<rparr>, d)"
  using assms
proof (induction tags arbitrary: n t)
  case Nil
  then show ?case
    by (simp add: io_return_def)
next
  case (Cons tg tags)
  let ?w = "(work t)\<lparr>version_tag :=
              filter (\<lambda>j. \<not> VersionTag_where v tg (work t) j) (version_tag (work t))\<rparr>"
  from Cons.prems have "fail_in (work (t\<lparr>work := ?w\<rparr>)) = None"
    by simp
  from Cons.IH [OF this] Cons.prems show ?case
    by (simp add: io_bind_def unawaited_def query_no_fault VersionTag_delete_def Let_def)
qed

lemma fst_pruneOrphanedTags_on:
  "fst (pruneOrphanedTags_on w) = Inr (length (filter (\<lambda>t. \<not> referenced_tag w t) (tag w)))"
  by (simp add: pruneOrphanedTags_on_def)

lemma dissociateTags_on_fail_in [simp]: "fail_in (snd (dissociateTags_on v tags w)) = fail_in w"
  by (simp add: dissociateTags_on_def split: option.splits)

lemma dissociateTags_Some:
  assumes "fail_in (work t) = None"
  shows "dissociateTags v tags (Some t) d
     = (fst (dissociateTags_on v tags (work t)), t\<lparr>work := snd (dissociateTags_on v tags (work t))\<rparr>, d)"
  using assms
  by (simp add: dissociateTags_def dissociateTags_on_def transactional_def io_bind_def io_return_def io_throw_def call_def
       dissociate_each_run pruneOrphanedTags_Some fst_pruneOrphanedTags_on split: option.splits)

lemma join_new_tags_fail_in [simp]: "fail_in (join_new_tags v u dbTags w) = fail_in w"
  by (simp add: join_new_tags_def Let_def)

lemma associateTags_on_fail_in [simp]: "fail_in (snd (associateTags_on v tags u w)) = fail_in w"
proof (cases "createTags_on tags w")
  case (Pair r w1)
  with createTags_on_fail_in [of tags w] show ?thesis
    by (cases r) (simp_all add: associateTags_on_def)
qed

lemma associateTags_Some:
  assumes nf: "fail_in (work t) = None"
  shows "associateTags v tags u (Some t) d
     = (fst (associateTags_on v tags u (work t)), t\<lparr>work := snd (associateTags_on v tags u (work t))\<rparr>, d)"
proof (cases "has_items tags")
  case False
  then show ?thesis
    by (simp add: associateTags_def associateTags_on_def transactional_def io_return_def)
next
  case True
  obtain r w1 where c: "createTags_on tags (work t) = (r, w1)"
    by (cases "createTags_on tags (work t)")
  from createTags_on_fail_in [of tags "work t"] c nf have nf1: "fail_in w1 = None"
    by simp
  show ?thesis
  proof (cases r)
    case (Inl e)
    with True c nf show ?thesis
      by (simp add: associateTags_def associateTags_on_def transactional_def io_bind_def call_def
          createTags_Some)
  next
    case (Inr dbTags)
    with True c nf nf1 show ?thesis
      by (simp add: associateTags_def associateTags_on_def transactional_def io_bind_def call_def
          io_return_def query_no_fault select_no_fault createTags_Some join_new_tags_def
          VersionTag_insert_def Let_def)
  qed
qed

lemma replaceTags_on_fail_in [simp]: "fail_in (snd (replaceTags_on v tags u w)) = fail_in w"
  by (simp add: replaceTags_on_def)

lemma replaceTags_Some:
  assumes nf: "fail_in (work t) = None"
  shows "replaceTags v tags u (Some t) d
     = (fst (replaceTags_on v tags u (work t)), t\<lparr>work := snd (replaceTags_on v tags u (work t))\<rparr>, d)"
proof (cases "has_items tags")
  case False
  then show ?thesis
    by (simp add: replaceTags_def replaceTags_on_def transactional_def io_return_def)
next
  case True
  show ?thesis
  proof (cases "to_dissociate v tags (work t) = []")
    case e: True
    with True nf show ?thesis
      by (simp add: replaceTags_def replaceTags_on_def transactional_def io_bind_def call_def
          io_return_def select_no_fault associateTags_Some to_dissociate_def)
  next
    case ne: False
    have ok: "fst (dissociateTags_on v (Some ts) w) = Inr (fst (dissociate_each_on v ts 0 w))" for ts :: "row list" and w
      by (simp add: dissociateTags_on_def)
    from ne True nf show ?thesis
      by (simp add: replaceTags_def replaceTags_on_def transactional_def io_bind_def call_def
          io_return_def select_no_fault associateTags_Some dissociateTags_Some ok
          to_dissociate_def [symmetric] Let_def)
  qed
qed

lemma orphan_metadata_ids:
  "m \<in> set (metadata w) \<Longrightarrow>
     (id m \<in> id ` set (Metadata_whereNull_versionMetadata w)) = (\<not> referenced_metadata w m)"
  by (force simp: Metadata_whereNull_versionMetadata_def referenced_metadata_def image_iff)

lemma createMetadata_on_fail_in [simp]: "fail_in (snd (createMetadata_on ms w)) = fail_in w"
  by (simp add: createMetadata_on_def split: option.splits)

lemma createMetadata_Some:
  assumes "fail_in (work t) = None"
  shows "createMetadata ms (Some t) d
     = (fst (createMetadata_on ms (work t)), t\<lparr>work := snd (createMetadata_on ms (work t))\<rparr>, d)"
  using assms
  by (simp add: createMetadata_def createMetadata_on_def transactional_def io_bind_def
      io_return_def io_throw_def select_no_fault query_no_fault Metadata_select_def
      Metadata_insert_def Let_def split: option.splits)

lemma pruneOrphanedMetadata_on_fail_in [simp]:
  "fail_in (snd (pruneOrphanedMetadata_on w)) = fail_in w"
  by (simp add: pruneOrphanedMetadata_on_def)

lemma pruneOrphanedMetadata_Some:
  assumes "fail_in (work t) = None"
  shows "pruneOrphanedMetadata (Some t) d
     = (fst (pruneOrphanedMetadata_on (work t)),
        t\<lparr>work := snd (pruneOrphanedMetadata_on (work t))\<rparr>, d)"
proof -
  have a: "filter (\<lambda>x. id x \<in> id ` set (Metadata_whereNull_versionMetadata (work t)))
             (metadata (work t))
      = filter (\<lambda>x. \<not> referenced_metadata (work t) x) (metadata (work t))"
    by (rule filter_cong) (simp_all add: orphan_metadata_ids)
  have b: "filter (\<lambda>x. id x \<notin> id ` set (Metadata_whereNull_versionMetadata (work t)))
             (metadata (work t))
      = filter (referenced_metadata (work t)) (metadata (work t))"
    by (rule filter_cong) (simp_all add: orphan_metadata_ids)
  show ?thesis
    using assms
    by (simp add: pruneOrphanedMetadata_def pruneOrphanedMetadata_on_def transactional_def
        io_bind_def select_no_fault query_no_fault Metadata_delete_whereIn_def a b)
qed

lemma fst_pruneOrphanedMetadata_on:
  "fst (pruneOrphanedMetadata_on w)
     = Inr (length (filter (\<lambda>m. \<not> referenced_metadata w m) (metadata w)))"
  by (simp add: pruneOrphanedMetadata_on_def)

lemma dissociate_metadata_fail_in [simp]:
  "fail_in (dissociate_metadata v dbMetadata w) = fail_in w"
  by (simp add: dissociate_metadata_def Let_def)

lemma associateMetadata_on_fail_in [simp]:
  "fail_in (snd (associateMetadata_on v ms u w)) = fail_in w"
proof (cases "createMetadata_on ms w")
  case (Pair r w1)
  with createMetadata_on_fail_in [of ms w] show ?thesis
    by (cases r) (simp_all add: associateMetadata_on_def Let_def)
qed

lemma associateMetadata_Some:
  assumes nf: "fail_in (work t) = None"
  shows "associateMetadata v ms u (Some t) d
     = (fst (associateMetadata_on v ms u (work t)),
        t\<lparr>work := snd (associateMetadata_on v ms u (work t))\<rparr>, d)"
proof (cases "has_items ms")
  case False
  then show ?thesis
    by (simp add: associateMetadata_def associateMetadata_on_def transactional_def io_return_def)
next
  case True
  obtain r w1 where c: "createMetadata_on ms (work t) = (r, w1)"
    by (cases "createMetadata_on ms (work t)")
  from createMetadata_on_fail_in [of ms "work t"] c nf have nf1: "fail_in w1 = None"
    by simp
  show ?thesis
  proof (cases r)
    case (Inl e)
    with True c nf show ?thesis
      by (simp add: associateMetadata_def associateMetadata_on_def transactional_def io_bind_def
          call_def createMetadata_Some)
  next
    case (Inr dbMetadata)
    with True c nf nf1 show ?thesis
      by (simp add: associateMetadata_def associateMetadata_on_def transactional_def io_bind_def
          call_def io_return_def query_no_fault select_no_fault createMetadata_Some
          pruneOrphanedMetadata_Some fst_pruneOrphanedMetadata_on
          new_metadata_joins_def dissociate_metadata_def
          VersionMetadata_insert_def VersionMetadata_delete_whereIn_def Let_def)
  qed
qed

lemma own_transaction:
  assumes run: "\<And>t d. fail_in (work t) = None \<Longrightarrow>
      f (Some t) d = (fst (F (work t)), t\<lparr>work := snd (F (work t))\<rparr>, d)"
    and frame: "\<And>etrx d. f etrx d = transactional etrx body d"
    and keeps: "\<And>w. fail_in (snd (F w)) = fail_in w"
    and nf: "fail_in d = None"
  shows "f None d =
     (case F d of
        (Inr x, w) \<Rightarrow> (Inr x, \<lparr>work = w, status = Committed\<rparr>, w)
      | (Inl e, w) \<Rightarrow>
          (Inl e, \<lparr>work = w, status = RolledBack\<rparr>,
           d\<lparr>tag_seq := tag_seq w, metadata_seq := metadata_seq w\<rparr>))"
proof -
  have body: "body (t, d) = (fst (F (work t)), t\<lparr>work := snd (F (work t))\<rparr>, d)"
    if "fail_in (work t) = None" for t d
    using run [OF that, of d] frame [of "Some t" d] by (simp add: transactional_def)
  obtain r w where F: "F d = (r, w)"
    by (cases "F d")
  from keeps [of d] F nf have "fail_in w = None"
    by simp
  then show ?thesis
    using nf
    by (cases r)
      (simp_all add: frame [of None d] transactional_def body F startTransaction_def commit_def
        rollback_def abandoned_def)
qed

lemma createTags_None:
  assumes "fail_in d = None"
  shows "createTags tags None d =
     (case createTags_on tags d of
        (Inr x, w) \<Rightarrow> (Inr x, \<lparr>work = w, status = Committed\<rparr>, w)
      | (Inl e, w) \<Rightarrow>
          (Inl e, \<lparr>work = w, status = RolledBack\<rparr>,
           d\<lparr>tag_seq := tag_seq w, metadata_seq := metadata_seq w\<rparr>))"
  by (rule own_transaction [OF createTags_Some _ _ assms]) (simp_all add: createTags_def)

lemma replaceTags_None:
  assumes "fail_in d = None"
  shows "replaceTags v tags u None d =
     (case replaceTags_on v tags u d of
        (Inr x, w) \<Rightarrow> (Inr x, \<lparr>work = w, status = Committed\<rparr>, w)
      | (Inl e, w) \<Rightarrow>
          (Inl e, \<lparr>work = w, status = RolledBack\<rparr>,
           d\<lparr>tag_seq := tag_seq w, metadata_seq := metadata_seq w\<rparr>))"
  by (rule own_transaction [OF replaceTags_Some _ _ assms]) (simp_all add: replaceTags_def)

lemma pruneOrphanedTags_None:
  assumes "fail_in d = None"
  shows "pruneOrphanedTags None d =
     (case pruneOrphanedTags_on d of
        (Inr x, w) \<Rightarrow> (Inr x, \<lparr>work = w, status = Committed\<rparr>, w)
      | (Inl e, w) \<Rightarrow>
          (Inl e, \<lparr>work = w, status = RolledBack\<rparr>,
           d\<lparr>tag_seq := tag_seq w, metadata_seq := metadata_seq w\<rparr>))"
  by (rule own_transaction [OF pruneOrphanedTags_Some _ _ assms])
    (simp_all add: pruneOrphanedTags_def)

lemma dissociateTags_None:
  assumes "fail_in d = None"
  shows "dissociateTags v tags None d =
     (case dissociateTags_on v tags d of
        (Inr x, w) \<Rightarrow> (Inr x, \<lparr>work = w, status = Committed\<rparr>, w)
      | (Inl e, w) \<Rightarrow>
          (Inl e, \<lparr>work = w, status = RolledBack\<rparr>,
           d\<lparr>tag_seq := tag_seq w, metadata_seq := metadata_seq w\<rparr>))"
  by (rule own_transaction [OF dissociateTags_Some _ _ assms]) (simp_all add: dissociateTags_def)

lemma associateTags_None:
  assumes "fail_in d = None"
  shows "associateTags v tags u None d =
     (case associateTags_on v tags u d of
        (Inr x, w) \<Rightarrow> (Inr x, \<lparr>work = w, status = Committed\<rparr>, w)
      | (Inl e, w) \<Rightarrow>
          (Inl e, \<lparr>work = w, status = RolledBack\<rparr>,
           d\<lparr>tag_seq := tag_seq w, metadata_seq := metadata_seq w\<rparr>))"
  by (rule own_transaction [OF associateTags_Some _ _ assms]) (simp_all add: associateTags_def)

lemma pruneOrphanedMetadata_None:
  assumes "fail_in d = None"
  shows "pruneOrphanedMetadata None d =
     (case pruneOrphanedMetadata_on d of
        (Inr x, w) \<Rightarrow> (Inr x, \<lparr>work = w, status = Committed\<rparr>, w)
      | (Inl e, w) \<Rightarrow>
          (Inl e, \<lparr>work = w, status = RolledBack\<rparr>,
           d\<lparr>tag_seq := tag_seq w, metadata_seq := metadata_seq w\<rparr>))"
  by (rule own_transaction [OF pruneOrphanedMetadata_Some _ _ assms])
    (simp_all add: pruneOrphanedMetadata_def)

lemma associateMetadata_None:
  assumes "fail_in d = None"
  shows "associateMetadata v ms u None d =
     (case associateMetadata_on v ms u d of
        (Inr x, w) \<Rightarrow> (Inr x, \<lparr>work = w, status = Committed\<rparr>, w)
      | (Inl e, w) \<Rightarrow>
          (Inl e, \<lparr>work = w, status = RolledBack\<rparr>,
           d\<lparr>tag_seq := tag_seq w, metadata_seq := metadata_seq w\<rparr>))"
  by (rule own_transaction [OF associateMetadata_Some _ _ assms])
    (simp_all add: associateMetadata_def)

section \<open>Ownership of the transaction\<close>

lemma neutral_return: "neutral (io_return x)"
  by (simp add: neutral_def io_return_def)

lemma neutral_throw: "neutral (io_throw e)"
  by (simp add: neutral_def io_throw_def)

lemma neutral_query: "neutral (query q)"
  by (simp add: neutral_def query_def split: sum.splits)

lemma neutral_select: "neutral (select q)"
  by (simp add: select_def neutral_query)

lemma neutralD:
  assumes "neutral m" and "m (t, d) = (r, t', d')"
  shows "status t' = status t" and "d' = d"
  using assms(1) [unfolded neutral_def, rule_format, of t d] assms(2) by simp_all

lemma neutral_bind:
  assumes "neutral m" and "\<And>x. neutral (f x)"
  shows "neutral (io_bind m f)"
  unfolding neutral_def
proof (intro allI)
  fix t d
  obtain r t1 d1 where m: "m (t, d) = (r, t1, d1)"
    by (cases "m (t, d)")
  note a = neutralD [OF assms(1) m]
  show "case io_bind m f (t, d) of (r, t', d') \<Rightarrow> status t' = status t \<and> d' = d"
  proof (cases r)
    case (Inl e)
    with m a show ?thesis
      by (simp add: io_bind_def)
  next
    case (Inr x)
    from assms(2) [of x] have "case f x (t1, d1) of (r, t', d') \<Rightarrow> status t' = status t1 \<and> d' = d1"
      by (simp add: neutral_def)
    with Inr m a show ?thesis
      by (simp add: io_bind_def)
  qed
qed

lemma neutral_if: "neutral a \<Longrightarrow> neutral b \<Longrightarrow> neutral (if c then a else b)"
  by simp

lemma framedI: "neutral body \<Longrightarrow> framed (\<lambda>etrx. transactional etrx body)"
  unfolding framed_def by blast

lemma neutral_call:
  assumes "framed f"
  shows "neutral (call f)"
proof -
  from assms obtain body where "neutral body" and "\<And>etrx d. f etrx d = transactional etrx body d"
    unfolding framed_def by blast
  then show ?thesis
    by (simp add: neutral_def call_def transactional_def)
qed

lemma framed_owns:
  assumes "framed f"
  shows "owns d (f None d)"
proof -
  from assms obtain body where n: "neutral body"
    and f: "\<And>etrx d. f etrx d = transactional etrx body d"
    unfolding framed_def by blast
  obtain r t' d' where b: "body (startTransaction d, d) = (r, t', d')"
    by (cases "body (startTransaction d, d)")
  from neutralD(2) [OF n b] have "d' = d" .
  with b show ?thesis
    by (cases r)
      (simp_all add: f transactional_def owns_def commit_def rollback_def abandoned_def)
qed

lemma framed_inherits:
  assumes "framed f"
  shows "inherits t d (f (Some t) d)"
proof -
  from assms obtain body where n: "neutral body"
    and f: "\<And>etrx d. f etrx d = transactional etrx body d"
    unfolding framed_def by blast
  from n have "case body (t, d) of (r, t', d') \<Rightarrow> status t' = status t \<and> d' = d"
    by (simp add: neutral_def)
  then show ?thesis
    by (simp add: f transactional_def inherits_def)
qed

lemma framed_createTags: "framed (createTags tags)"
  unfolding createTags_def [abs_def]
  by (rule framedI)
    (auto intro!: neutral_bind neutral_select neutral_query neutral_return neutral_throw
      simp: Let_def split: option.splits)

lemma framed_pruneOrphanedTags: "framed pruneOrphanedTags"
  unfolding pruneOrphanedTags_def [abs_def]
  by (rule framedI) (auto intro!: neutral_bind neutral_select neutral_query)

lemma neutral_unawaited:
  assumes "neutral m"
  shows "neutral (unawaited m)"
  unfolding neutral_def
proof (intro allI)
  fix t d
  obtain r t1 d1 where m: "m (t, d) = (r, t1, d1)"
    by (cases "m (t, d)")
  from neutralD [OF assms m] m
  show "case unawaited m (t, d) of (r, t', d') \<Rightarrow> status t' = status t \<and> d' = d"
    by (cases r) (simp_all add: unawaited_def)
qed

lemma neutral_dissociate_each: "neutral (dissociate_each v tags n)"
  by (induction tags arbitrary: n)
    (auto intro!: neutral_bind neutral_unawaited neutral_query neutral_return)

lemma framed_dissociateTags: "framed (dissociateTags v tags)"
  unfolding dissociateTags_def [abs_def]
  by (rule framedI)
    (auto intro!: neutral_bind neutral_dissociate_each neutral_call framed_pruneOrphanedTags
      neutral_return neutral_throw split: option.splits)

lemma framed_associateTags: "framed (associateTags v tags u)"
  unfolding associateTags_def [abs_def]
  by (rule framedI)
    (auto intro!: neutral_bind neutral_select neutral_query neutral_return neutral_call
      framed_createTags simp: Let_def)

lemma framed_replaceTags: "framed (replaceTags v tags u)"
  unfolding replaceTags_def [abs_def]
  by (rule framedI)
    (auto intro!: neutral_bind neutral_select neutral_query neutral_return neutral_call
      framed_dissociateTags framed_associateTags simp: Let_def)

lemma framed_createMetadata: "framed (createMetadata ms)"
  unfolding createMetadata_def [abs_def]
  by (rule framedI)
    (auto intro!: neutral_bind neutral_select neutral_query neutral_return neutral_throw
      simp: Let_def split: option.splits)

lemma framed_pruneOrphanedMetadata: "framed pruneOrphanedMetadata"
  unfolding pruneOrphanedMetadata_def [abs_def]
  by (rule framedI) (auto intro!: neutral_bind neutral_select neutral_query)

lemma framed_associateMetadata: "framed (associateMetadata v ms u)"
  unfolding associateMetadata_def [abs_def]
  by (rule framedI)
    (auto intro!: neutral_bind neutral_select neutral_query neutral_return neutral_call
      framed_createMetadata framed_pruneOrphanedMetadata simp: Let_def)

text \<open>
  Every operation of the two services owns the transaction or takes part in the
  caller's. Called without a handle, it starts a transaction on the database. When it
  returns a result, it has asked for the commit: the database is then the handle's tables
  if the store accepted the commit, and has the tables it had before if the store rejected
  it. When it throws, the transaction is rolled back and the database has the tables it
  had before. Called with a handle, it returns its result or its error with the status of
  the handle as it was and the database untouched: it neither commits nor rolls back.
\<close>

lemma transaction_frame:
  "owns d (replaceTags v tags u None d) \<and> inherits t d (replaceTags v tags u (Some t) d)
   \<and> owns d (associateTags v tags u None d) \<and> inherits t d (associateTags v tags u (Some t) d)
   \<and> owns d (dissociateTags v tags None d) \<and> inherits t d (dissociateTags v tags (Some t) d)
   \<and> owns d (createTags tags None d) \<and> inherits t d (createTags tags (Some t) d)
   \<and> owns d (pruneOrphanedTags None d) \<and> inherits t d (pruneOrphanedTags (Some t) d)
   \<and> owns d (associateMetadata v tags u None d)
   \<and> inherits t d (associateMetadata v tags u (Some t) d)
   \<and> owns d (createMetadata tags None d) \<and> inherits t d (createMetadata tags (Some t) d)
   \<and> owns d (pruneOrphanedMetadata None d) \<and> inherits t d (pruneOrphanedMetadata (Some t) d)"
  by (intro conjI framed_owns framed_inherits framed_replaceTags framed_associateTags
      framed_dissociateTags framed_createTags framed_pruneOrphanedTags
      framed_associateMetadata framed_createMetadata framed_pruneOrphanedMetadata)

text \<open>A query that the store rejects: \<open>replaceTags\<close> replaces the tag \<open>a = 1\<close> of version
  \<open>v1\<close> by \<open>b = 2\<close>, and the store answers six queries (the last one the insert of the
  tag record) and rejects the seventh. The call throws the error of the store and has
  rolled back: the tables are as they were; the id taken from the sequence is not handed
  out again. With the caller's handle and a pair that the JSON schema refuses, the call
  throws the ValidationError and leaves the handle open, with the deletes it has
  done.\<close>

lemma replaceTags_rejected_query_rolls_back:
  "replaceTags ''v1'' (Some [\<lparr>key = ''b'', value = ''2''\<rparr>]) None None
      (sample_db\<lparr>fail_in := Some 6\<rparr>)
     = (Inl DatabaseError,
        \<lparr>work = sample_db\<lparr>tag := [\<lparr>key = ''b'', value = ''2'', id = 2\<rparr>], tag_seq := 3,
                 version_tag := [], fail_in := Some 0\<rparr>,
         status = RolledBack\<rparr>,
        sample_db\<lparr>tag_seq := 3, fail_in := Some 6\<rparr>)
   \<and> replaceTags ''v1'' (Some [\<lparr>key = ''b'', value = ''''\<rparr>]) None
        (Some \<lparr>work = sample_db, status = Active\<rparr>) sample_db
     = (Inl ValidationError,
        \<lparr>work = sample_db\<lparr>tag := [], version_tag := []\<rparr>, status = Active\<rparr>,
        sample_db)"
  by code_simp

text \<open>
  C8. The claim: an operation that started its own transaction commits on success, and on
  any failure rolls back and throws the error again. It does so for every error thrown
  inside its \<open>try\<close> block, but not when the failure is that of the commit itself:
  \<open>await trx.commit()\<close> throws nothing when the store rejects the COMMIT, so the
  \<open>catch\<close> block is not entered and the call returns its response as a success, with
  nothing of the transaction in the database. \<open>replaceTags\<close> replaces the tag \<open>a = 1\<close> of
  version \<open>v1\<close> by \<open>b = 2\<close> on a store that answers the eight queries of the call and
  rejects the COMMIT: the call returns the tag record \<open>b = 2\<close> and throws nothing, while
  in the database version \<open>v1\<close> still carries \<open>a = 1\<close> and there is no record \<open>b = 2\<close>.
\<close>

theorem replaceTags_rejected_commit_returns:
  "replaceTags ''v1'' (Some [\<lparr>key = ''b'', value = ''2''\<rparr>]) None None
      (sample_db\<lparr>fail_in := Some 8\<rparr>)
     = (Inr [\<lparr>key = ''b'', value = ''2'', id = 2\<rparr>],
        \<lparr>work = sample_db\<lparr>tag := [\<lparr>key = ''b'', value = ''2'', id = 2\<rparr>], tag_seq := 3,
                 version_tag := [\<lparr>versionId = ''v1'', createdBy = SYSTEM_USER, tagId = 2\<rparr>],
                 fail_in := Some 0\<rparr>,
         status = CommitRejected\<rparr>,
        sample_db\<lparr>tag_seq := 3, fail_in := Some 8\<rparr>)
   \<and> tag (sample_db\<lparr>tag_seq := 3, fail_in := Some 8\<rparr>) = [\<lparr>key = ''a'', value = ''1'', id = 1\<rparr>]
   \<and> version_tag (sample_db\<lparr>tag_seq := 3, fail_in := Some 8\<rparr>)
       = [\<lparr>versionId = ''v1'', createdBy = ''u1'', tagId = 1\<rparr>]"
  by code_simp


section \<open>Pruning and the empty incoming set\<close>

lemma referenced_tag_iff: "referenced_tag w t = (\<exists>j\<in>set (version_tag w). tagId j = id t)"
  by (simp add: referenced_tag_def list_ex_iff)

lemma referenced_metadata_iff:
  "referenced_metadata w m = (\<exists>j\<in>set (version_metadata w). metadataId j = id m)"
  by (simp add: referenced_metadata_def list_ex_iff)

text \<open>
  C7. \<open>pruneOrphanedTags\<close> and \<open>pruneOrphanedMetadata\<close> keep exactly the records that some
  row of the join table refers to, delete the others, return the number of deleted
  records and leave the join table alone: a record without any reference left is deleted,
  a record that a version still refers to is kept. (The store rejects no query.)
\<close>

theorem prune_deletes_exactly_orphans:
  assumes "fail_in d = None" and "fail_in (work t) = None"
  shows "pruneOrphanedTags None d =
     (Inr (length (filter (\<lambda>x. \<not> referenced_tag d x) (tag d))),
      \<lparr>work = d\<lparr>tag := filter (referenced_tag d) (tag d)\<rparr>, status = Committed\<rparr>,
      d\<lparr>tag := filter (referenced_tag d) (tag d)\<rparr>)
   \<and> pruneOrphanedTags (Some t) d =
     (Inr (length (filter (\<lambda>x. \<not> referenced_tag (work t) x) (tag (work t)))),
      t\<lparr>work := (work t)\<lparr>tag := filter (referenced_tag (work t)) (tag (work t))\<rparr>\<rparr>,
      d)
   \<and> referenced_tag d x = (\<exists>j\<in>set (version_tag d). tagId j = id x)
   \<and> pruneOrphanedMetadata None d =
     (Inr (length (filter (\<lambda>x. \<not> referenced_metadata d x) (metadata d))),
      \<lparr>work = d\<lparr>metadata := filter (referenced_metadata d) (metadata d)\<rparr>, status = Committed\<rparr>,
      d\<lparr>metadata := filter (referenced_metadata d) (metadata d)\<rparr>)
   \<and> pruneOrphanedMetadata (Some t) d =
     (Inr (length (filter (\<lambda>x. \<not> referenced_metadata (work t) x) (metadata (work t)))),
      t\<lparr>work := (work t)\<lparr>metadata :=
                     filter (referenced_metadata (work t)) (metadata (work t))\<rparr>\<rparr>,
      d)
   \<and> referenced_metadata d x = (\<exists>j\<in>set (version_metadata d). metadataId j = id x)"
  using assms
  by (simp add: pruneOrphanedTags_None pruneOrphanedTags_Some pruneOrphanedTags_on_def
      pruneOrphanedMetadata_None pruneOrphanedMetadata_Some pruneOrphanedMetadata_on_def
      referenced_tag_iff referenced_metadata_iff)

theorem prune_deletes_exactly_orphans_witness:
  "pruneOrphanedTags None shared_db =
     (Inr 1,
      \<lparr>work = shared_db\<lparr>tag := [\<lparr>key = ''a'', value = ''1'', id = 1\<rparr>]\<rparr>, status = Committed\<rparr>,
      shared_db\<lparr>tag := [\<lparr>key = ''a'', value = ''1'', id = 1\<rparr>]\<rparr>)
   \<and> pruneOrphanedMetadata None shared_db =
     (Inr 1,
      \<lparr>work = shared_db\<lparr>metadata := [\<lparr>key = ''a'', value = ''1'', id = 1\<rparr>]\<rparr>,
        status = Committed\<rparr>,
      shared_db\<lparr>metadata := [\<lparr>key = ''a'', value = ''1'', id = 1\<rparr>]\<rparr>)"
proof -
  have a: "filter (referenced_tag shared_db) (tag shared_db) = [\<lparr>key = ''a'', value = ''1'', id = 1\<rparr>]"
    by (simp add: shared_db_def referenced_tag_def)
  have b: "length (filter (\<lambda>x. \<not> referenced_tag shared_db x) (tag shared_db)) = 1"
    by (simp add: shared_db_def referenced_tag_def)
  have c: "filter (referenced_metadata shared_db) (metadata shared_db)
             = [\<lparr>key = ''a'', value = ''1'', id = 1\<rparr>]"
    by (simp add: shared_db_def referenced_metadata_def)
  have e: "length (filter (\<lambda>x. \<not> referenced_metadata shared_db x) (metadata shared_db)) = 1"
    by (simp add: shared_db_def referenced_metadata_def)
  have nf: "fail_in shared_db = None" "fail_in (work (startTransaction shared_db)) = None"
    by (simp_all add: shared_db_def startTransaction_def)
  from prune_deletes_exactly_orphans [OF nf] a b c e
  show ?thesis
    by simp
qed

text \<open>
  C10. With an empty, null or undefined list, \<open>replaceTags\<close> and \<open>associateMetadata\<close>
  run no query and leave every table as it was. They return the empty list: with the
  caller's handle, which stays as it was, and with their own transaction, which is
  committed unchanged when the store accepts the commit.
\<close>

theorem empty_incoming_changes_nothing:
  assumes "tags = None \<or> tags = Some []"
  shows "snd (snd (replaceTags v tags u None d)) = d
    \<and> (fail_in d \<noteq> Some 0 \<longrightarrow>
         replaceTags v tags u None d = (Inr [], \<lparr>work = d, status = Committed\<rparr>, d))
    \<and> replaceTags v tags u (Some t) d = (Inr [], t, d)
    \<and> snd (snd (associateMetadata v tags u None d)) = d
    \<and> (fail_in d \<noteq> Some 0 \<longrightarrow>
         associateMetadata v tags u None d = (Inr [], \<lparr>work = d, status = Committed\<rparr>, d))
    \<and> associateMetadata v tags u (Some t) d = (Inr [], t, d)"
proof -
  from assms have "\<not> has_items tags"
    by (auto simp: has_items_def)
  then show ?thesis
    by (simp add: replaceTags_def associateMetadata_def transactional_def io_return_def
        startTransaction_def commit_def abandoned_def)
qed

theorem empty_incoming_changes_nothing_witness:
  "fail_in sample_db \<noteq> Some 0
   \<and> replaceTags ''v1'' (Some ([] :: pair list)) None None sample_db
     = (Inr [], \<lparr>work = sample_db, status = Committed\<rparr>, sample_db)
   \<and> replaceTags ''v1'' (Some ([] :: pair list)) None (Some (startTransaction sample_db)) sample_db
     = (Inr [], startTransaction sample_db, sample_db)
   \<and> associateMetadata ''v1'' (Some ([] :: pair list)) None None sample_db
     = (Inr [], \<lparr>work = sample_db, status = Committed\<rparr>, sample_db)
   \<and> associateMetadata ''v1'' (Some ([] :: pair list)) None (Some (startTransaction sample_db))
        sample_db
     = (Inr [], startTransaction sample_db, sample_db)"
proof -
  have pre: "Some ([] :: pair list) = None \<or> Some ([] :: pair list) = Some []"
    by simp
  have nf: "fail_in sample_db \<noteq> Some 0"
    by (simp add: sample_db_def)
  from empty_incoming_changes_nothing [OF pre, of "''v1''" None sample_db] nf
  show ?thesis
    by blast
qed

text \<open>
  C2. The claim: with the empty incoming set, \<open>replaceTags\<close> and \<open>associateMetadata\<close>
  remove all associations of the version. Their documentation says so too (the incoming
  list is made "the definitive set associated with versionId"), but the guard
  \<open>tags && tags.length\<close> skips the whole reconciliation when the list is empty: version
  \<open>v1\<close> of the sample database keeps its tag and its metadata.
\<close>

theorem empty_incoming_keeps_associations_example:
  "VersionTag_filterVersionId ''v1'' sample_db \<noteq> []
   \<and> VersionTag_filterVersionId ''v1''
        (snd (snd (replaceTags ''v1'' (Some ([] :: pair list)) None None sample_db))) \<noteq> []
   \<and> VersionMetadata_filterVersionId ''v1'' sample_db \<noteq> []
   \<and> VersionMetadata_filterVersionId ''v1''
        (snd (snd (associateMetadata ''v1'' (Some ([] :: pair list)) None None sample_db))) \<noteq> []"
  by code_simp

text \<open>
  C3. The claim: pruning runs before the incoming records are created, so none of them is
  deleted by the pruning of the same run. \<open>associateMetadata\<close> creates the records first
  and prunes afterwards: replacing the metadata \<open>a = 1\<close> of version \<open>v1\<close> by \<open>b = 2\<close>
  creates record 2, prunes record 1 and the still unjoined record 2, and then joins the
  version to the deleted record 2. (\<open>replaceTags\<close> prunes before it creates.)
\<close>

theorem associateMetadata_prunes_new_record:
  "associateMetadata ''v1'' (Some [\<lparr>key = ''b'', value = ''2''\<rparr>]) (Some ''u2'') None sample_db
     = (Inr [\<lparr>versionId = ''v1'', createdBy = ''u2'', metadataId = 2\<rparr>],
        \<lparr>work = sample_db\<lparr>metadata := [], metadata_seq := 3,
              version_metadata := [\<lparr>versionId = ''v1'', createdBy = ''u2'', metadataId = 2\<rparr>]\<rparr>,
         status = Committed\<rparr>,
        sample_db\<lparr>metadata := [], metadata_seq := 3,
              version_metadata := [\<lparr>versionId = ''v1'', createdBy = ''u2'', metadataId = 2\<rparr>]\<rparr>)"
  by code_simp


section \<open>Idempotence of replaceTags\<close>

text \<open>What \<open>dissociateTags\<close> leaves of the join table.\<close>

lemma VersionTag_where_version_tag_update [simp]:
  "VersionTag_where v tg (w\<lparr>version_tag := x\<rparr>) j = VersionTag_where v tg w j"
  by (simp add: VersionTag_where_def)

lemma dissociate_each_on_snd:
  "snd (dissociate_each_on v tgs n w) =
     w\<lparr>version_tag :=
         filter (\<lambda>j. \<not> list_ex (\<lambda>tg. VersionTag_where v tg w j) tgs) (version_tag w)\<rparr>"
proof (induction tgs arbitrary: n w)
  case Nil
  then show ?case by simp
next
  case (Cons tg tgs)
  have "filter (\<lambda>j. \<not> VersionTag_where v tg w j \<and> \<not> list_ex (\<lambda>tg. VersionTag_where v tg w j) tgs)
          (version_tag w)
      = filter (\<lambda>j. \<not> (VersionTag_where v tg w j \<or> list_ex (\<lambda>tg. VersionTag_where v tg w j) tgs))
          (version_tag w)"
    by (rule filter_cong) auto
  then show ?case
    by (simp add: Cons.IH Let_def)
qed

lemma dissociateTags_on_snd:
  "snd (dissociateTags_on v (Some tgs) w) =
     (let w1 = w\<lparr>version_tag :=
                  filter (\<lambda>j. \<not> list_ex (\<lambda>tg. VersionTag_where v tg w j) tgs) (version_tag w)\<rparr>
      in w1\<lparr>tag := filter (referenced_tag w1) (tag w1)\<rparr>)"
  by (simp add: dissociateTags_on_def dissociate_each_on_snd pruneOrphanedTags_on_def Let_def)

lemma joined_tag_matches_itself:
  assumes "t \<in> set (tag w)" and "tagId j = id t" and "versionId j = v"
  shows "VersionTag_where v t w j"
  using assms by (auto simp: VersionTag_where_def list_ex_iff)

lemma set_Tag_joinRelated_versionTag:
  "set (Tag_joinRelated_versionTag v w) =
     {t \<in> set (tag w). \<exists>j\<in>set (version_tag w). tagId j = id t \<and> versionId j = v}"
  by (auto simp: Tag_joinRelated_versionTag_def)

lemma gobkv_None_iff:
  "getObjectsByKeyValue xs k v = None \<longleftrightarrow> (\<forall>x\<in>set xs. \<not> (key x = k \<and> value x = v))"
  by (auto simp: getObjectsByKeyValue_def find_None_iff)

lemma gobkv_SomeD:
  "getObjectsByKeyValue xs k v = Some m \<Longrightarrow> m \<in> set xs \<and> key m = k \<and> value m = v"
  by (auto simp: getObjectsByKeyValue_def find_Some_iff)

lemma gobkv_append:
  "getObjectsByKeyValue (xs @ ys) k v =
     (case getObjectsByKeyValue xs k v of
        Some m \<Rightarrow> Some m
      | None \<Rightarrow> getObjectsByKeyValue ys k v)"
  by (induction xs) (simp_all add: getObjectsByKeyValue_def)

lemma gobkv_in_pairs: "(getObjectsByKeyValue S (key t) (value t) = None) = (\<not> in_pairs S t)"
  by (auto simp: gobkv_None_iff in_pairs_def list_ex_iff)

lemma number_from_set:
  "x \<in> set (number_from n ps) \<Longrightarrow>
     n \<le> id x \<and> id x < n + length ps \<and> (\<exists>p\<in>set ps. key p = key x \<and> value p = value x)"
  by (induction ps arbitrary: n) fastforce+

lemma length_number_from [simp]: "length (number_from n ps) = length ps"
  by (induction ps arbitrary: n) simp_all

lemma number_from_Nil [simp]: "(number_from n ps = []) = (ps = [])"
  by (cases ps) simp_all

lemma gobkv_number_from:
  "(getObjectsByKeyValue (number_from n ps) k v = None) = (\<forall>p\<in>set ps. \<not> (key p = k \<and> value p = v))"
  by (induction ps arbitrary: n) (auto simp: getObjectsByKeyValue_def)

lemma set_new_of:
  "set (new_of allTags S) =
     (\<lambda>p. \<lparr>key = key p, value = value p\<rparr>) `
       {p \<in> set S. getObjectsByKeyValue allTags (key p) (value p) = None}"
  by (auto simp: new_of_def)

lemma new_of_Nil: "(new_of allTags S = []) = (\<forall>p\<in>set S. getObjectsByKeyValue allTags (key p) (value p) \<noteq> None)"
  by (auto simp: new_of_def filter_empty_conv)

lemma set_existing_of:
  "set (existing_of allTags S) =
     {x. \<exists>p\<in>set S. \<exists>m. getObjectsByKeyValue allTags (key p) (value p) = Some m
            \<and> x = \<lparr>key = key p, value = value p, id = id m\<rparr>}"
  by (induction S) (auto simp: existing_of_def split: option.splits)

lemma has_items_Some [simp]: "has_items (Some S) = (S \<noteq> [])"
  by (simp add: has_items_def)

lemma items_Some [simp]: "items (Some S) = S"
  by (simp add: items_def)

lemma settled_to_dissociate:
  assumes "settled v S w"
  shows "to_dissociate v (Some S) w = []"
  using assms
  by (auto simp: settled_def to_dissociate_def filter_empty_conv list_all_iff gobkv_in_pairs)

lemma settled_new_of:
  assumes "settled v S w"
  shows "new_of (tag w) S = []"
  using assms
  by (auto simp: settled_def new_of_Nil list_all_iff split: option.splits)

lemma settled_joins:
  assumes "settled v S w"
  shows "join_new_tags v u (existing_of (tag w) S) w = w"
proof -
  have "list_ex (\<lambda>j. tagId j = id x) (VersionTag_filterVersionId v w)"
    if "x \<in> set (existing_of (tag w) S)" for x
    using that assms
    by (auto simp: set_existing_of settled_def list_all_iff split: option.splits)
  then have "filter (\<lambda>t. \<not> list_ex (\<lambda>j. tagId j = id t) (VersionTag_filterVersionId v w))
               (existing_of (tag w) S) = []"
    by (simp add: filter_empty_conv)
  then show ?thesis
    by (simp add: join_new_tags_def)
qed

lemma settled_noop:
  assumes "settled v S w" and "S \<noteq> []"
  shows "replaceTags_on v (Some S) u w = (Inr (existing_of (tag w) S), w)"
  using assms
  by (simp add: replaceTags_on_def associateTags_on_def createTags_on_def
      settled_to_dissociate settled_new_of settled_joins)

lemma createTags_on_Inr:
  assumes "createTags_on (Some S) w = (Inr dbTags, wc)"
  shows "dbTags = existing_of (tag w) S @ number_from (tag_seq w) (new_of (tag w) S)"
    and "wc = w\<lparr>tag := tag w @ number_from (tag_seq w) (new_of (tag w) S),
               tag_seq := tag_seq w + length (new_of (tag w) S)\<rparr>"
  using assms
  by (auto simp: createTags_on_def split: if_splits)

lemma join_new_tags_tables:
  "join_new_tags v u dbTags w =
     w\<lparr>version_tag := version_tag w @
          map (\<lambda>t. \<lparr>versionId = v, createdBy = or_SYSTEM_USER u, tagId = id t\<rparr>)
            (filter (\<lambda>t. \<not> list_ex (\<lambda>j. tagId j = id t) (VersionTag_filterVersionId v w)) dbTags)\<rparr>"
  by (simp add: join_new_tags_def Let_def)

lemma joined_after_join_new_tags:
  assumes "x \<in> set dbTags"
  shows "list_ex (\<lambda>j. tagId j = id x) (VersionTag_filterVersionId v (join_new_tags v u dbTags w))"
proof (cases "list_ex (\<lambda>j. tagId j = id x) (VersionTag_filterVersionId v w)")
  case True
  then show ?thesis
    by (auto simp: join_new_tags_tables VersionTag_filterVersionId_def list_ex_iff)
next
  case False
  with assms show ?thesis
    by (force simp: join_new_tags_tables VersionTag_filterVersionId_def list_ex_iff)
qed

lemma first_match_created:
  assumes "p \<in> set S"
  shows "\<exists>m. getObjectsByKeyValue (tag w @ number_from n (new_of (tag w) S)) (key p) (value p) = Some m
           \<and> id m \<in> id ` set (existing_of (tag w) S @ number_from n (new_of (tag w) S))"
proof (cases "getObjectsByKeyValue (tag w) (key p) (value p)")
  case (Some m)
  with assms have "\<lparr>key = key p, value = value p, id = id m\<rparr> \<in> set (existing_of (tag w) S)"
    by (auto simp: set_existing_of)
  then have "id m \<in> id ` set (existing_of (tag w) S)"
    by (rule rev_image_eqI) simp
  with Some show ?thesis
    by (auto simp: gobkv_append)
next
  case None
  with assms have "\<lparr>key = key p, value = value p\<rparr> \<in> set (new_of (tag w) S)"
    by (auto simp: set_new_of)
  then have "getObjectsByKeyValue (number_from n (new_of (tag w) S)) (key p) (value p) \<noteq> None"
    unfolding gobkv_number_from
    by (auto intro!: bexI [where x = "\<lparr>key = key p, value = value p\<rparr>"])
  then obtain m where m: "getObjectsByKeyValue (number_from n (new_of (tag w) S)) (key p) (value p) = Some m"
    by auto
  then have "m \<in> set (number_from n (new_of (tag w) S))"
    by (simp add: gobkv_SomeD)
  with None m show ?thesis
    by (auto simp: gobkv_append)
qed

lemma distinct_ids_eq:
  assumes "distinct (map id xs)" and "a \<in> set xs" and "b \<in> set xs" and "id a = id b"
  shows "a = b"
  using assms by (auto simp: distinct_map inj_on_def)

lemma new_rows_in_pairs:
  assumes "x \<in> set (number_from n (new_of allTags S))"
  shows "in_pairs S x"
proof -
  from number_from_set [OF assms] obtain q where "q \<in> set (new_of allTags S)"
    and "key q = key x" and "value q = value x"
    by auto
  then show ?thesis
    by (auto simp: set_new_of in_pairs_def list_ex_iff)
qed

lemma dissociated_tables:
  fixes S :: "'a pair_scheme list" and v :: string and w :: db
  defines "wd \<equiv> snd (dissociateTags_on v (Some (to_dissociate v (Some S) w)) w)"
  shows "set (tag wd) \<subseteq> set (tag w)"
    and "tag_seq wd = tag_seq w"
    and "tag_ids_ok w \<Longrightarrow> tag_ids_ok wd"
    and "t \<in> set (Tag_joinRelated_versionTag v wd) \<Longrightarrow> in_pairs S t"
proof -
  show "set (tag wd) \<subseteq> set (tag w)"
    by (auto simp: wd_def dissociateTags_on_snd Let_def)
  show "tag_seq wd = tag_seq w"
    by (simp add: wd_def dissociateTags_on_snd Let_def)
  show "tag_ids_ok wd" if "tag_ids_ok w"
    using that
    by (auto simp: wd_def dissociateTags_on_snd Let_def tag_ids_ok_def distinct_map_filter
        list_all_iff)
  show "in_pairs S t" if t: "t \<in> set (Tag_joinRelated_versionTag v wd)"
  proof (rule ccontr)
    assume no: "\<not> in_pairs S t"
    from t obtain j where tw: "t \<in> set (tag w)"
      and j: "j \<in> set (version_tag w)" "tagId j = id t" "versionId j = v"
      and kept: "\<not> list_ex (\<lambda>tg. VersionTag_where v tg w j) (to_dissociate v (Some S) w)"
      by (auto simp: wd_def set_Tag_joinRelated_versionTag dissociateTags_on_snd Let_def)
    from tw j no have "t \<in> set (to_dissociate v (Some S) w)"
      by (auto simp: to_dissociate_def set_Tag_joinRelated_versionTag gobkv_in_pairs)
    moreover from tw j have "VersionTag_where v t w j"
      by (intro joined_tag_matches_itself)
    ultimately show False
      using kept by (auto simp: list_ex_iff)
  qed
qed

lemma associate_settles:
  assumes ok: "tag_ids_ok wd"
    and joined: "\<And>t. t \<in> set (Tag_joinRelated_versionTag v wd) \<Longrightarrow> in_pairs S t"
    and S: "S \<noteq> []"
    and res: "associateTags_on v (Some S) u wd = (Inr r, w1)"
  shows "settled v S w1"
proof -
  let ?new = "number_from (tag_seq wd) (new_of (tag wd) S)"
  let ?db = "existing_of (tag wd) S @ ?new"
  obtain dbTags wc where c: "createTags_on (Some S) wd = (Inr dbTags, wc)"
    and w1: "w1 = join_new_tags v u dbTags wc"
    using res S by (auto simp: associateTags_on_def split: prod.splits sum.splits)
  note db = createTags_on_Inr(1) [OF c] and wc = createTags_on_Inr(2) [OF c]
  have tag1: "tag w1 = tag wd @ ?new"
    by (simp add: w1 wc join_new_tags_tables)
  have vt1: "version_tag w1 = version_tag wd @
      map (\<lambda>t. \<lparr>versionId = v, createdBy = or_SYSTEM_USER u, tagId = id t\<rparr>)
        (filter (\<lambda>t. \<not> list_ex (\<lambda>j. tagId j = id t) (VersionTag_filterVersionId v wc)) dbTags)"
    by (simp add: w1 wc join_new_tags_tables)
  have A: "in_pairs S t" if t: "t \<in> set (Tag_joinRelated_versionTag v w1)" for t
  proof -
    from t obtain j where tin: "t \<in> set (tag wd) \<or> t \<in> set ?new"
      and j: "j \<in> set (version_tag w1)" "tagId j = id t" "versionId j = v"
      by (auto simp: set_Tag_joinRelated_versionTag tag1)
    show ?thesis
    proof (cases "t \<in> set ?new")
      case True
      then show ?thesis by (rule new_rows_in_pairs)
    next
      case False
      with tin have td: "t \<in> set (tag wd)" by simp
      show ?thesis
      proof (cases "j \<in> set (version_tag wd)")
        case True
        with td j have "t \<in> set (Tag_joinRelated_versionTag v wd)"
          by (auto simp: set_Tag_joinRelated_versionTag)
        then show ?thesis by (rule joined)
      next
        case False
        with j(1) obtain x where x: "x \<in> set dbTags" and jx: "tagId j = id x"
          by (auto simp: vt1)
        from x db have "x \<in> set (existing_of (tag wd) S) \<or> x \<in> set ?new"
          by auto
        then show ?thesis
        proof
          assume "x \<in> set (existing_of (tag wd) S)"
          then obtain p m where p: "p \<in> set S"
            and m: "getObjectsByKeyValue (tag wd) (key p) (value p) = Some m"
            and xid: "id x = id m"
            by (auto simp: set_existing_of)
          from gobkv_SomeD [OF m] have mm: "m \<in> set (tag wd)" "key m = key p" "value m = value p"
            by auto
          from ok have "distinct (map id (tag wd))"
            by (simp add: tag_ids_ok_def)
          from distinct_ids_eq [OF this td mm(1)] j(2) jx xid have "t = m"
            by simp
          with p mm show ?thesis
            by (auto simp: in_pairs_def list_ex_iff)
        next
          assume "x \<in> set ?new"
          from number_from_set [OF this] have "tag_seq wd \<le> id x"
            by simp
          moreover from ok td have "id t < tag_seq wd"
            by (auto simp: tag_ids_ok_def list_all_iff)
          ultimately show ?thesis
            using j(2) jx by simp
        qed
      qed
    qed
  qed
  have B: "case getObjectsByKeyValue (tag w1) (key p) (value p) of
             None \<Rightarrow> False
           | Some m \<Rightarrow> list_ex (\<lambda>j. tagId j = id m) (VersionTag_filterVersionId v w1)"
    if p: "p \<in> set S" for p
  proof -
    from first_match_created [OF p, of wd "tag_seq wd"]
    obtain m where m: "getObjectsByKeyValue (tag w1) (key p) (value p) = Some m"
      and "id m \<in> id ` set dbTags"
      by (auto simp: tag1 db)
    then obtain x where x: "x \<in> set dbTags" and "id x = id m"
      by auto
    with joined_after_join_new_tags [OF x, of v u wc] m show ?thesis
      by (simp add: w1)
  qed
  from A B show ?thesis
    by (simp add: settled_def list_all_iff)
qed

lemma replaceTags_settles:
  assumes ok: "tag_ids_ok w" and S: "S \<noteq> []"
    and res: "replaceTags_on v (Some S) u w = (Inr r, w1)"
  shows "settled v S w1"
proof (cases "to_dissociate v (Some S) w = []")
  case True
  then have "in_pairs S t" if "t \<in> set (Tag_joinRelated_versionTag v w)" for t
    using that by (auto simp: to_dissociate_def filter_empty_conv gobkv_in_pairs)
  moreover from True res S have "associateTags_on v (Some S) u w = (Inr r, w1)"
    by (simp add: replaceTags_on_def)
  ultimately show ?thesis
    using ok S by (intro associate_settles [where wd = w and u = u and r = r]) auto
next
  case False
  let ?wd = "snd (dissociateTags_on v (Some (to_dissociate v (Some S) w)) w)"
  from False res S have "associateTags_on v (Some S) u ?wd = (Inr r, w1)"
    by (simp add: replaceTags_on_def)
  with dissociated_tables(3) [OF ok, where v = v and S = S]
    dissociated_tables(4) [where v = v and w = w and S = S] S
  show ?thesis
    by (intro associate_settles [where wd = ?wd and u = u and r = r]) auto
qed

lemma replaceTags_on_response:
  assumes S: "S \<noteq> []" and res: "replaceTags_on v (Some S) u w = (Inr r, w1)"
  shows "\<exists>wd::db. r = existing_of (tag wd) S @ number_from (tag_seq wd) (new_of (tag wd) S)
           \<and> tag w1 = tag wd @ number_from (tag_seq wd) (new_of (tag wd) S)"
proof -
  obtain wd where a: "associateTags_on v (Some S) u wd = (Inr r, w1)"
    using res S by (auto simp: replaceTags_on_def split: if_splits)
  obtain x wc where cx: "createTags_on (Some S) wd = (x, wc)"
    by (cases "createTags_on (Some S) wd")
  have a': "(case createTags_on (Some S) wd of
              (Inl e, w1) \<Rightarrow> (Inl e, w1)
            | (Inr dbTags, w1) \<Rightarrow> (Inr dbTags, join_new_tags v u dbTags w1)) = (Inr r, w1)"
    using a S unfolding associateTags_on_def by simp
  have c: "createTags_on (Some S) wd = (Inr r, wc)" and w1: "w1 = join_new_tags v u r wc"
    using a' unfolding cx by (cases x; simp)+
  have "tag w1 = tag wd @ number_from (tag_seq wd) (new_of (tag wd) S)"
    by (simp add: w1 join_new_tags_tables createTags_on_Inr(2) [OF c])
  with createTags_on_Inr(1) [OF c] show ?thesis
    by blast
qed

lemma pairs_number_from:
  "map (\<lambda>x. (key x, value x)) (number_from n ps) = map (\<lambda>p. (key p, value p)) ps"
  by (induction ps arbitrary: n) simp_all

lemma pairs_new_of:
  "map (\<lambda>p. (key p, value p)) (new_of allTags S)
     = map (\<lambda>p. (key p, value p)) (filter (\<lambda>p. getObjectsByKeyValue allTags (key p) (value p) = None) S)"
  by (simp add: new_of_def comp_def)

lemma distinct_new_rows:
  assumes "distinct (map (\<lambda>p. (key p, value p)) S)"
  shows "distinct (map (\<lambda>x. (key x, value x)) (number_from n (new_of allTags S)))"
  using assms by (simp add: pairs_number_from pairs_new_of distinct_map_filter)

lemma existing_of_again_subset:
  "set (existing_of (allTags @ number_from n (new_of allTags S)) S)
     \<subseteq> set (existing_of allTags S @ number_from n (new_of allTags S))"
proof
  fix x
  assume "x \<in> set (existing_of (allTags @ number_from n (new_of allTags S)) S)"
  then obtain p m where p: "p \<in> set S"
    and m: "getObjectsByKeyValue (allTags @ number_from n (new_of allTags S)) (key p) (value p) = Some m"
    and x: "x = \<lparr>key = key p, value = value p, id = id m\<rparr>"
    by (auto simp: set_existing_of)
  show "x \<in> set (existing_of allTags S @ number_from n (new_of allTags S))"
  proof (cases "getObjectsByKeyValue allTags (key p) (value p)")
    case (Some m')
    with m have "m' = m"
      by (simp add: gobkv_append)
    with Some p x show ?thesis
      by (auto simp: set_existing_of)
  next
    case None
    with m have m2: "getObjectsByKeyValue (number_from n (new_of allTags S)) (key p) (value p) = Some m"
      by (simp add: gobkv_append)
    from gobkv_SomeD [OF m2] x have "x = m" and "m \<in> set (number_from n (new_of allTags S))"
      by auto
    then show ?thesis
      by simp
  qed
qed

lemma existing_of_again_eq:
  assumes "distinct (map (\<lambda>p. (key p, value p)) S)"
  shows "set (existing_of (allTags @ number_from n (new_of allTags S)) S)
     = set (existing_of allTags S @ number_from n (new_of allTags S))"
proof
  show "set (existing_of (allTags @ number_from n (new_of allTags S)) S)
     \<subseteq> set (existing_of allTags S @ number_from n (new_of allTags S))"
    by (rule existing_of_again_subset)
  show "set (existing_of allTags S @ number_from n (new_of allTags S))
     \<subseteq> set (existing_of (allTags @ number_from n (new_of allTags S)) S)"
  proof
    fix x
    assume "x \<in> set (existing_of allTags S @ number_from n (new_of allTags S))"
    then consider "x \<in> set (existing_of allTags S)" | "x \<in> set (number_from n (new_of allTags S))"
      by auto
    then show "x \<in> set (existing_of (allTags @ number_from n (new_of allTags S)) S)"
    proof cases
      case 1
      then obtain p m where "p \<in> set S"
        and "getObjectsByKeyValue allTags (key p) (value p) = Some m"
        and "x = \<lparr>key = key p, value = value p, id = id m\<rparr>"
        by (auto simp: set_existing_of)
      moreover from this have "getObjectsByKeyValue (allTags @ number_from n (new_of allTags S))
          (key p) (value p) = Some m"
        by (simp add: gobkv_append)
      ultimately show ?thesis
        by (auto simp only: set_existing_of mem_Collect_eq)
    next
      case 2
      from number_from_set [OF 2] obtain q where "q \<in> set (new_of allTags S)"
        and "key q = key x" "value q = value x"
        by auto
      then obtain p where p: "p \<in> set S"
        and none: "getObjectsByKeyValue allTags (key p) (value p) = None"
        and kv: "key p = key x" "value p = value x"
        by (auto simp: set_new_of)
      have "getObjectsByKeyValue (number_from n (new_of allTags S)) (key p) (value p) \<noteq> None"
        using 2 kv by (auto simp: gobkv_None_iff)
      then obtain m where m: "getObjectsByKeyValue (number_from n (new_of allTags S)) (key p) (value p) = Some m"
        by auto
      from gobkv_SomeD [OF m] kv have mm: "m \<in> set (number_from n (new_of allTags S))"
        "(key m, value m) = (key x, value x)"
        by auto
      have "inj_on (\<lambda>x. (key x, value x)) (set (number_from n (new_of allTags S)))"
        using distinct_new_rows [OF assms, of n allTags] by (simp add: distinct_map)
      from inj_onD [OF this mm(2) mm(1) 2] have "m = x" .
      with m none have "getObjectsByKeyValue (allTags @ number_from n (new_of allTags S)) (key p) (value p) = Some x"
        by (simp add: gobkv_append)
      moreover from kv have "x = \<lparr>key = key p, value = value p, id = id x\<rparr>"
        by simp
      ultimately show ?thesis
        using p by (auto simp only: set_existing_of mem_Collect_eq)
    qed
  qed
qed

lemma replaceTags_None_Inr:
  assumes "fail_in d = None" and "replaceTags v tags u None d = (Inr r, t, d1)"
  shows "replaceTags_on v tags u d = (Inr r, d1)"
proof -
  obtain x w where F: "replaceTags_on v tags u d = (x, w)"
    by (cases "replaceTags_on v tags u d")
  with assms(2) show ?thesis
    by (cases x) (simp_all add: replaceTags_None [OF assms(1)])
qed

text \<open>\<open>replaceTags\<close> prunes before it creates: after a successful call every
  incoming pair has a record that is joined to the version.\<close>

lemma replaceTags_joins_incoming:
  assumes "tag_ids_ok d" and "S \<noteq> []"
    and "replaceTags v (Some S) u None d = (Inr r, t, d1)"
    and "p \<in> set S" and nf: "fail_in d = None"
  shows "\<exists>m\<in>set (Tag_joinRelated_versionTag v d1). key m = key p \<and> value m = value p"
proof -
  from nf assms(3) have "replaceTags_on v (Some S) u d = (Inr r, d1)"
    by (rule replaceTags_None_Inr)
  from replaceTags_settles [OF assms(1,2) this] assms(4)
  obtain m where m: "getObjectsByKeyValue (tag d1) (key p) (value p) = Some m"
    and j: "list_ex (\<lambda>j. tagId j = id m) (VersionTag_filterVersionId v d1)"
    by (auto simp: settled_def list_all_iff split: option.splits)
  from gobkv_SomeD [OF m] j have "m \<in> set (Tag_joinRelated_versionTag v d1)"
    by (auto simp: set_Tag_joinRelated_versionTag VersionTag_filterVersionId_def list_ex_iff)
  with gobkv_SomeD [OF m] show ?thesis
    by auto
qed

text \<open>
  C5. For a non-empty incoming list, a second \<open>replaceTags\<close> with the same version, list
  and actor, run on the database the first call committed, succeeds and commits the
  database unchanged: it inserts no tag, inserts no join row and deletes nothing. It
  returns records the first call returned, and the same set of records when no pair
  occurs twice in the list. The database satisfies the primary key of \<open>tag\<close>
  (\<open>tag_ids_ok\<close>), and the store rejects no query.
\<close>

theorem replaceTags_idempotent:
  assumes "tag_ids_ok d" and "S \<noteq> []"
    and "replaceTags v (Some S) u None d = (Inr r1, t1, d1)"
    and nf: "fail_in d = None"
  shows "\<exists>r2. replaceTags v (Some S) u None d1 = (Inr r2, \<lparr>work = d1, status = Committed\<rparr>, d1)
           \<and> set r2 \<subseteq> set r1
           \<and> (distinct (map (\<lambda>p. (key p, value p)) S) \<longrightarrow> set r2 = set r1)"
proof -
  from nf assms(3) have run1: "replaceTags_on v (Some S) u d = (Inr r1, d1)"
    by (rule replaceTags_None_Inr)
  from replaceTags_on_fail_in [of v "Some S" u d] run1 nf have nf1: "fail_in d1 = None"
    by simp
  from replaceTags_settles [OF assms(1,2) run1] have "settled v S d1" .
  from settled_noop [OF this assms(2)]
  have run2: "replaceTags_on v (Some S) u d1 = (Inr (existing_of (tag d1) S), d1)" .
  from replaceTags_on_response [OF assms(2) run1] obtain wd :: db
    where r1: "r1 = existing_of (tag wd) S @ number_from (tag_seq wd) (new_of (tag wd) S)"
      and tag1: "tag d1 = tag wd @ number_from (tag_seq wd) (new_of (tag wd) S)"
    by blast
  have "replaceTags v (Some S) u None d1
          = (Inr (existing_of (tag d1) S), \<lparr>work = d1, status = Committed\<rparr>, d1)"
    by (simp add: replaceTags_None [OF nf1] run2)
  moreover have "set (existing_of (tag d1) S) \<subseteq> set r1"
    unfolding r1 tag1 by (rule existing_of_again_subset)
  moreover have "set (existing_of (tag d1) S) = set r1"
    if "distinct (map (\<lambda>p. (key p, value p)) S)"
    unfolding r1 tag1 using that by (rule existing_of_again_eq)
  ultimately show ?thesis
    by blast
qed

theorem replaceTags_idempotent_witness:
  "tag_ids_ok sample_db
   \<and> replaceTags ''v1'' (Some [\<lparr>key = ''b'', value = ''2''\<rparr>]) (Some ''u2'') None sample_db
     = (Inr [\<lparr>key = ''b'', value = ''2'', id = 2\<rparr>],
        \<lparr>work = sample_db\<lparr>tag := [\<lparr>key = ''b'', value = ''2'', id = 2\<rparr>], tag_seq := 3,
                 version_tag := [\<lparr>versionId = ''v1'', createdBy = ''u2'', tagId = 2\<rparr>]\<rparr>,
         status = Committed\<rparr>,
        sample_db\<lparr>tag := [\<lparr>key = ''b'', value = ''2'', id = 2\<rparr>], tag_seq := 3,
                 version_tag := [\<lparr>versionId = ''v1'', createdBy = ''u2'', tagId = 2\<rparr>]\<rparr>)
   \<and> (\<exists>r2. replaceTags ''v1'' (Some [\<lparr>key = ''b'', value = ''2''\<rparr>]) (Some ''u2'') None
              (sample_db\<lparr>tag := [\<lparr>key = ''b'', value = ''2'', id = 2\<rparr>], tag_seq := 3,
                 version_tag := [\<lparr>versionId = ''v1'', createdBy = ''u2'', tagId = 2\<rparr>]\<rparr>)
           = (Inr r2,
              \<lparr>work = sample_db\<lparr>tag := [\<lparr>key = ''b'', value = ''2'', id = 2\<rparr>], tag_seq := 3,
                 version_tag := [\<lparr>versionId = ''v1'', createdBy = ''u2'', tagId = 2\<rparr>]\<rparr>,
               status = Committed\<rparr>,
              sample_db\<lparr>tag := [\<lparr>key = ''b'', value = ''2'', id = 2\<rparr>], tag_seq := 3,
                 version_tag := [\<lparr>versionId = ''v1'', createdBy = ''u2'', tagId = 2\<rparr>]\<rparr>)
         \<and> set r2 = {\<lparr>key = ''b'', value = ''2'', id = 2\<rparr>})"
proof -
  let ?S = "[\<lparr>key = ''b'', value = ''2''\<rparr>]"
  let ?d1 = "sample_db\<lparr>tag := [\<lparr>key = ''b'', value = ''2'', id = 2\<rparr>], tag_seq := 3,
                 version_tag := [\<lparr>versionId = ''v1'', createdBy = ''u2'', tagId = 2\<rparr>]\<rparr>"
  have ok: "tag_ids_ok sample_db"
    by (simp add: tag_ids_ok_def sample_db_def)
  have ne: "?S \<noteq> []"
    by simp
  have run1: "replaceTags ''v1'' (Some ?S) (Some ''u2'') None sample_db
     = (Inr [\<lparr>key = ''b'', value = ''2'', id = 2\<rparr>], \<lparr>work = ?d1, status = Committed\<rparr>, ?d1)"
    by code_simp
  have dist: "distinct (map (\<lambda>p. (key p, value p)) ?S)"
    by simp
  have nf: "fail_in sample_db = None"
    by (simp add: sample_db_def)
  from replaceTags_idempotent [OF ok ne run1 nf] dist ok run1 show ?thesis
    by auto
qed

section \<open>Sharing of attribute records\<close>

lemma ids_number_from: "map id (number_from n ps) = [n..<n + length ps]"
proof (induction ps arbitrary: n)
  case Nil
  then show ?case by simp
next
  case (Cons p ps)
  then show ?case by (simp add: upt_rec)
qed

lemma filter_unique:
  assumes "distinct (map f xs)" and "r \<in> set xs"
  shows "filter (\<lambda>t. f t = f r) xs = [r]"
  using assms
proof (induction xs)
  case Nil
  then show ?case by simp
next
  case (Cons a xs)
  show ?case
  proof (cases "a = r")
    case True
    with Cons.prems have "\<forall>t\<in>set xs. f t \<noteq> f r"
      by (auto simp: image_iff)
    then have "filter (\<lambda>t. f t = f r) xs = []"
      by (simp add: filter_empty_conv)
    with True show ?thesis by simp
  next
    case False
    with Cons.prems have "r \<in> set xs" and "f a \<noteq> f r" and "distinct (map f xs)"
      by (auto simp: image_iff)
    with Cons.IH show ?thesis by simp
  qed
qed

lemma filter_pair_number_from_Nil:
  "(filter (\<lambda>t. key t = k \<and> value t = x) (number_from n ps) = [])
     = (filter (\<lambda>p. key p = k \<and> value p = x) ps = [])"
  by (induction ps arbitrary: n) auto

lemma one_new_row:
  assumes "filter (\<lambda>p. key p = k \<and> value p = x) ps = [q]"
  shows "\<exists>i. filter (\<lambda>t. key t = k \<and> value t = x) (number_from n ps)
              = [\<lparr>key = k, value = x, id = i\<rparr>] \<and> n \<le> i \<and> i < n + length ps"
  using assms
proof (induction ps arbitrary: n)
  case Nil
  then show ?case by simp
next
  case (Cons a ps)
  show ?case
  proof (cases "key a = k \<and> value a = x")
    case True
    with Cons.prems have "filter (\<lambda>p. key p = k \<and> value p = x) ps = []"
      by simp
    then have "filter (\<lambda>t. key t = k \<and> value t = x) (number_from (Suc n) ps) = []"
      by (simp add: filter_pair_number_from_Nil)
    with True show ?thesis
      by (intro exI [of _ n]) simp
  next
    case False
    with Cons.prems have "filter (\<lambda>p. key p = k \<and> value p = x) ps = [q]"
      by simp
    from Cons.IH [OF this, of "Suc n"] obtain i
      where "filter (\<lambda>t. key t = k \<and> value t = x) (number_from (Suc n) ps)
               = [\<lparr>key = k, value = x, id = i\<rparr>]" and "Suc n \<le> i" and "i < Suc n + length ps"
      by blast
    with False show ?thesis
      by (intro exI [of _ i]) auto
  qed
qed

lemma filter_pair_new_of:
  assumes "getObjectsByKeyValue allTags k x = None"
  shows "filter (\<lambda>p. key p = k \<and> value p = x) (new_of allTags S)
     = map (\<lambda>p. \<lparr>key = key p, value = value p\<rparr>) (filter (\<lambda>p. key p = k \<and> value p = x) S)"
  using assms
  by (induction S) (auto simp: new_of_def)

lemma filter_pair_new_of_matched:
  assumes "getObjectsByKeyValue allTags k x \<noteq> None"
  shows "filter (\<lambda>p. key p = k \<and> value p = x) (new_of allTags S) = []"
  using assms
  by (induction S) (auto simp: new_of_def)

lemma existing_of_ids:
  assumes "y \<in> set (existing_of allTags S)"
  shows "\<exists>m\<in>set allTags. id m = id y"
  using assms gobkv_SomeD by (fastforce simp: set_existing_of)

lemma filter_id_existing_of:
  assumes dist: "distinct (map id allTags)" and r: "r \<in> set allTags"
    and kv: "key r = k" "value r = x"
    and only: "\<And>m. m \<in> set allTags \<Longrightarrow> key m = k \<Longrightarrow> value m = x \<Longrightarrow> m = r"
  shows "filter (\<lambda>t. id t = id r) (existing_of allTags S)
     = map (\<lambda>p. \<lparr>key = k, value = x, id = id r\<rparr>) (filter (\<lambda>p. key p = k \<and> value p = x) S)"
proof (induction S)
  case Nil
  then show ?case by (simp add: existing_of_def)
next
  case (Cons p ps)
  have step: "existing_of allTags (p # ps) =
      (case getObjectsByKeyValue allTags (key p) (value p) of
         None \<Rightarrow> existing_of allTags ps
       | Some m \<Rightarrow> \<lparr>key = key p, value = value p, id = id m\<rparr> # existing_of allTags ps)"
    by (simp add: existing_of_def split: option.splits)
  show ?case
  proof (cases "key p = k \<and> value p = x")
    case True
    from r kv True have "getObjectsByKeyValue allTags (key p) (value p) \<noteq> None"
      by (auto simp: gobkv_None_iff)
    then obtain m where m: "getObjectsByKeyValue allTags (key p) (value p) = Some m"
      by auto
    from gobkv_SomeD [OF m] True only have "m = r"
      by auto
    with m True Cons.IH show ?thesis
      by (simp add: step)
  next
    case False
    show ?thesis
    proof (cases "getObjectsByKeyValue allTags (key p) (value p)")
      case None
      with False Cons.IH show ?thesis
        by (simp add: step)
    next
      case (Some m)
      from gobkv_SomeD [OF Some] have mm: "m \<in> set allTags" "key m = key p" "value m = value p"
        by auto
      have "id m \<noteq> id r"
      proof
        assume "id m = id r"
        from distinct_ids_eq [OF dist mm(1) r this] mm kv False show False
          by auto
      qed
      with Some False Cons.IH show ?thesis
        by (simp add: step)
    qed
  qed
qed

lemma filter_singletonD:
  assumes "filter P xs = [a]"
  shows "a \<in> set xs" and "P a"
proof -
  have "a \<in> set (filter P xs)"
    by (simp add: assms)
  then show "a \<in> set xs" and "P a"
    by simp_all
qed

lemma associateTags_on_tables:
  assumes S: "S \<noteq> []" and res: "associateTags_on v (Some S) u w = (Inr r, w1)"
  shows "tag w1 = tag w @ number_from (tag_seq w) (new_of (tag w) S)"
    and "tag_seq w1 = tag_seq w + length (new_of (tag w) S)"
    and "version_tag w1 = version_tag w @
           map (\<lambda>t. \<lparr>versionId = v, createdBy = or_SYSTEM_USER u, tagId = id t\<rparr>)
             (filter (\<lambda>t. \<not> list_ex (\<lambda>j. tagId j = id t) (VersionTag_filterVersionId v w))
                (existing_of (tag w) S @ number_from (tag_seq w) (new_of (tag w) S)))"
proof -
  obtain x wc where cx: "createTags_on (Some S) w = (x, wc)"
    by (cases "createTags_on (Some S) w")
  have a': "(case createTags_on (Some S) w of
              (Inl e, w1) \<Rightarrow> (Inl e, w1)
            | (Inr dbTags, w1) \<Rightarrow> (Inr dbTags, join_new_tags v u dbTags w1)) = (Inr r, w1)"
    using res S unfolding associateTags_on_def by simp
  have c: "createTags_on (Some S) w = (Inr r, wc)" and w1: "w1 = join_new_tags v u r wc"
    using a' unfolding cx by (cases x; simp)+
  note r = createTags_on_Inr(1) [OF c] and wc = createTags_on_Inr(2) [OF c]
  have vt: "VersionTag_filterVersionId v wc = VersionTag_filterVersionId v w"
    by (simp add: wc VersionTag_filterVersionId_def)
  show "tag w1 = tag w @ number_from (tag_seq w) (new_of (tag w) S)"
    by (simp add: w1 wc join_new_tags_tables)
  show "tag_seq w1 = tag_seq w + length (new_of (tag w) S)"
    by (simp add: w1 wc join_new_tags_tables)
  show "version_tag w1 = version_tag w @
           map (\<lambda>t. \<lparr>versionId = v, createdBy = or_SYSTEM_USER u, tagId = id t\<rparr>)
             (filter (\<lambda>t. \<not> list_ex (\<lambda>j. tagId j = id t) (VersionTag_filterVersionId v w))
                (existing_of (tag w) S @ number_from (tag_seq w) (new_of (tag w) S)))"
    unfolding w1 join_new_tags_tables vt by (simp add: wc r)
qed

lemma tag_ids_ok_associateTags_on:
  assumes ok: "tag_ids_ok w" and S: "S \<noteq> []"
    and res: "associateTags_on v (Some S) u w = (Inr r, w1)"
  shows "tag_ids_ok w1"
proof -
  let ?new = "number_from (tag_seq w) (new_of (tag w) S)"
  have "distinct (map id ?new)"
    by (simp add: ids_number_from)
  moreover have "id a \<noteq> id b" if "a \<in> set (tag w)" "b \<in> set ?new" for a b
    using that ok number_from_set [of b "tag_seq w" "new_of (tag w) S"]
    by (auto simp: tag_ids_ok_def list_all_iff)
  moreover have "id b < tag_seq w + length (new_of (tag w) S)" if "b \<in> set ?new" for b
    using number_from_set [OF that] by simp
  moreover have "id a < tag_seq w + length (new_of (tag w) S)" if "a \<in> set (tag w)" for a
    using that ok by (auto simp: tag_ids_ok_def list_all_iff)
  ultimately show ?thesis
    using ok
    by (auto simp: tag_ids_ok_def list_all_iff associateTags_on_tables(1,2) [OF S res])
qed

lemma first_association:
  assumes ok: "tag_ids_ok w" and fk: "version_tag_ids_ok w"
    and fresh: "getObjectsByKeyValue (tag w) k x = None"
    and one: "filter (\<lambda>p. key p = k \<and> value p = x) S = [q]"
    and res: "associateTags_on v (Some S) u w = (Inr r, w1)"
  shows "\<exists>i. filter (\<lambda>t. key t = k \<and> value t = x) (tag w1) = [\<lparr>key = k, value = x, id = i\<rparr>]
           \<and> filter (\<lambda>j. tagId j = i) (version_tag w1)
               = [\<lparr>versionId = v, createdBy = or_SYSTEM_USER u, tagId = i\<rparr>]"
proof -
  let ?new = "number_from (tag_seq w) (new_of (tag w) S)"
  let ?mk = "\<lambda>t. \<lparr>versionId = v, createdBy = or_SYSTEM_USER u, tagId = id t\<rparr>"
  let ?Q = "\<lambda>t. \<not> list_ex (\<lambda>j. tagId j = id t) (VersionTag_filterVersionId v w)"
  from one have S: "S \<noteq> []"
    by auto
  note tabs = associateTags_on_tables [OF S res]
  from filter_singletonD(2) [OF one] have q: "key q = k" "value q = x"
    by simp_all
  have old: "filter (\<lambda>t. key t = k \<and> value t = x) (tag w) = []"
    using fresh by (auto simp: gobkv_None_iff filter_empty_conv)
  have "filter (\<lambda>p. key p = k \<and> value p = x) (new_of (tag w) S) = [\<lparr>key = k, value = x\<rparr>]"
    by (simp add: filter_pair_new_of [OF fresh] one q)
  from one_new_row [OF this, of "tag_seq w"] obtain i
    where new: "filter (\<lambda>t. key t = k \<and> value t = x) ?new = [\<lparr>key = k, value = x, id = i\<rparr>]"
      and i: "tag_seq w \<le> i"
    by blast
  let ?r = "\<lparr>key = k, value = x, id = i\<rparr>"
  have rin: "?r \<in> set ?new"
    by (rule filter_singletonD(1) [OF new])
  have tags: "filter (\<lambda>t. key t = k \<and> value t = x) (tag w1) = [?r]"
    by (simp add: tabs(1) old new)
  have vt_old: "filter (\<lambda>j. tagId j = i) (version_tag w) = []"
    using fk i by (auto simp: version_tag_ids_ok_def list_all_iff filter_empty_conv)
  have ex: "filter (\<lambda>t. id t = i) (existing_of (tag w) S) = []"
  proof -
    have "id y \<noteq> i" if "y \<in> set (existing_of (tag w) S)" for y
      using existing_of_ids [OF that] ok i by (auto simp: tag_ids_ok_def list_all_iff)
    then show ?thesis
      by (simp add: filter_empty_conv)
  qed
  have "distinct (map id ?new)"
    by (simp add: ids_number_from)
  from filter_unique [OF this rin] have nw: "filter (\<lambda>t. id t = i) ?new = [?r]"
    by simp
  have Q: "?Q ?r"
    using vt_old
    by (auto simp: VersionTag_filterVersionId_def list_ex_iff filter_empty_conv)
  have "filter (\<lambda>j. tagId j = i)
          (map ?mk (filter ?Q (existing_of (tag w) S @ ?new)))
      = map ?mk (filter ?Q (filter (\<lambda>t. id t = i) (existing_of (tag w) S @ ?new)))"
    by (simp add: filter_map comp_def conj_commute)
  also have "\<dots> = [?mk ?r]"
    using Q by (simp add: ex nw)
  finally have "filter (\<lambda>j. tagId j = i) (version_tag w1) = [?mk ?r]"
    by (simp add: tabs(3) vt_old)
  with tags show ?thesis
    by (intro exI [of _ i]) simp
qed

lemma further_association:
  assumes ok: "tag_ids_ok w"
    and rec: "filter (\<lambda>t. key t = k \<and> value t = x) (tag w) = [t0]"
    and one: "filter (\<lambda>p. key p = k \<and> value p = x) S = [q]"
    and notyet: "filter (\<lambda>j. tagId j = id t0 \<and> versionId j = v) (version_tag w) = []"
    and res: "associateTags_on v (Some S) u w = (Inr r, w1)"
  shows "filter (\<lambda>t. key t = k \<and> value t = x) (tag w1) = [t0]"
    and "filter (\<lambda>j. tagId j = id t0) (version_tag w1)
           = filter (\<lambda>j. tagId j = id t0) (version_tag w)
             @ [\<lparr>versionId = v, createdBy = or_SYSTEM_USER u, tagId = id t0\<rparr>]"
proof -
  let ?new = "number_from (tag_seq w) (new_of (tag w) S)"
  let ?mk = "\<lambda>t. \<lparr>versionId = v, createdBy = or_SYSTEM_USER u, tagId = id t\<rparr>"
  let ?Q = "\<lambda>t. \<not> list_ex (\<lambda>j. tagId j = id t) (VersionTag_filterVersionId v w)"
  from one have S: "S \<noteq> []"
    by auto
  note tabs = associateTags_on_tables [OF S res]
  have t0: "t0 \<in> set (tag w)" "key t0 = k" "value t0 = x"
    using filter_singletonD [OF rec] by simp_all
  have only: "m = t0" if "m \<in> set (tag w)" "key m = k" "value m = x" for m
  proof -
    from that have "m \<in> set (filter (\<lambda>t. key t = k \<and> value t = x) (tag w))"
      by simp
    then show ?thesis
      by (simp add: rec)
  qed
  from t0 have matched: "getObjectsByKeyValue (tag w) k x \<noteq> None"
    by (auto simp: gobkv_None_iff)
  have new: "filter (\<lambda>t. key t = k \<and> value t = x) ?new = []"
    by (simp add: filter_pair_number_from_Nil filter_pair_new_of_matched [OF matched])
  show "filter (\<lambda>t. key t = k \<and> value t = x) (tag w1) = [t0]"
    by (simp add: tabs(1) rec new)
  from ok have dist: "distinct (map id (tag w))"
    by (simp add: tag_ids_ok_def)
  have t0eq: "\<lparr>key = k, value = x, id = id t0\<rparr> = t0"
    unfolding t0(2,3) [symmetric] by simp
  have "filter (\<lambda>t. id t = id t0) (existing_of (tag w) S)
      = map (\<lambda>p. \<lparr>key = k, value = x, id = id t0\<rparr>) (filter (\<lambda>p. key p = k \<and> value p = x) S)"
    by (rule filter_id_existing_of [OF dist t0(1) t0(2,3) only])
  then have ex: "filter (\<lambda>t. id t = id t0) (existing_of (tag w) S) = [t0]"
    unfolding one t0eq by simp
  have nw: "filter (\<lambda>t. id t = id t0) ?new = []"
  proof -
    have "id y \<noteq> id t0" if "y \<in> set ?new" for y
      using number_from_set [OF that] ok t0(1) by (auto simp: tag_ids_ok_def list_all_iff)
    then show ?thesis
      by (simp add: filter_empty_conv)
  qed
  have Q: "?Q t0"
    using notyet
    by (auto simp: VersionTag_filterVersionId_def list_ex_iff filter_empty_conv)
  have "filter (\<lambda>j. tagId j = id t0)
          (map ?mk (filter ?Q (existing_of (tag w) S @ ?new)))
      = map ?mk (filter ?Q (filter (\<lambda>t. id t = id t0) (existing_of (tag w) S @ ?new)))"
    by (simp add: filter_map comp_def conj_commute)
  also have "\<dots> = [?mk t0]"
    using Q by (simp add: ex nw)
  finally show "filter (\<lambda>j. tagId j = id t0) (version_tag w1)
           = filter (\<lambda>j. tagId j = id t0) (version_tag w)
             @ [\<lparr>versionId = v, createdBy = or_SYSTEM_USER u, tagId = id t0\<rparr>]"
    by (simp add: tabs(3))
qed

lemma associateTags_None_Inr:
  assumes "fail_in d = None" and "associateTags v tags u None d = (Inr r, t, d1)"
  shows "associateTags_on v tags u d = (Inr r, d1)"
proof -
  obtain x w where F: "associateTags_on v tags u d = (x, w)"
    by (cases "associateTags_on v tags u d")
  with assms(2) show ?thesis
    by (cases x) (simp_all add: associateTags_None [OF assms(1)])
qed

text \<open>The two invariants are kept by the calls that succeed.\<close>

lemma tag_ids_ok_replaceTags_on:
  assumes ok: "tag_ids_ok w" and res: "replaceTags_on v tags u w = (Inr r, w1)"
  shows "tag_ids_ok w1"
proof (cases tags)
  case None
  with ok res show ?thesis
    by (simp add: replaceTags_on_def has_items_def)
next
  case (Some S)
  show ?thesis
  proof (cases "S = []")
    case True
    with Some ok res show ?thesis
      by (simp add: replaceTags_on_def)
  next
    case S: False
    show ?thesis
    proof (cases "to_dissociate v (Some S) w = []")
      case True
      with S Some res have "associateTags_on v (Some S) u w = (Inr r, w1)"
        by (simp add: replaceTags_on_def)
      from tag_ids_ok_associateTags_on [OF ok S this] show ?thesis .
    next
      case False
      let ?wd = "snd (dissociateTags_on v (Some (to_dissociate v (Some S) w)) w)"
      from False S Some res have "associateTags_on v (Some S) u ?wd = (Inr r, w1)"
        by (simp add: replaceTags_on_def)
      from tag_ids_ok_associateTags_on [OF dissociated_tables(3) [OF ok] S this]
      show ?thesis .
    qed
  qed
qed

lemma version_tag_ids_ok_associateTags_on:
  assumes ok: "tag_ids_ok w" and fk: "version_tag_ids_ok w" and S: "S \<noteq> []"
    and res: "associateTags_on v (Some S) u w = (Inr r, w1)"
  shows "version_tag_ids_ok w1"
proof -
  let ?new = "number_from (tag_seq w) (new_of (tag w) S)"
  have "id y < tag_seq w + length (new_of (tag w) S)"
    if "y \<in> set (existing_of (tag w) S @ ?new)" for y
  proof (cases "y \<in> set ?new")
    case True
    from number_from_set [OF this] show ?thesis by simp
  next
    case False
    with that have "y \<in> set (existing_of (tag w) S)" by simp
    from existing_of_ids [OF this] ok show ?thesis
      by (auto simp: tag_ids_ok_def list_all_iff)
  qed
  with fk show ?thesis
    by (auto simp: version_tag_ids_ok_def list_all_iff associateTags_on_tables(2,3) [OF S res])
qed

text \<open>
  C6. A pair that the store does not hold yet, associated with version \<open>v1\<close> and then with
  a different version \<open>v2\<close> by two \<open>associateTags\<close> calls (each list holding the pair
  once), has exactly one record in \<open>tag\<close> afterwards, and exactly two rows of
  \<open>version_tag\<close> refer to that record: one of \<open>v1\<close>, one of \<open>v2\<close>. The database
  satisfies the primary key of \<open>tag\<close> and the foreign key of \<open>version_tag\<close>, and the
  store rejects no query.
\<close>

theorem shared_attribute_record:
  assumes ok: "tag_ids_ok d" and fk: "version_tag_ids_ok d" and nf: "fail_in d = None"
    and fresh: "getObjectsByKeyValue (tag d) k x = None"
    and vs: "v1 \<noteq> v2"
    and one1: "filter (\<lambda>p. key p = k \<and> value p = x) S1 = [q1]"
    and one2: "filter (\<lambda>p. key p = k \<and> value p = x) S2 = [q2]"
    and run1: "associateTags v1 (Some S1) u1 None d = (Inr r1, t1, d1)"
    and run2: "associateTags v2 (Some S2) u2 None d1 = (Inr r2, t2, d2)"
  shows "\<exists>i. filter (\<lambda>t. key t = k \<and> value t = x) (tag d2) = [\<lparr>key = k, value = x, id = i\<rparr>]
           \<and> filter (\<lambda>j. tagId j = i) (version_tag d2)
               = [\<lparr>versionId = v1, createdBy = or_SYSTEM_USER u1, tagId = i\<rparr>,
                  \<lparr>versionId = v2, createdBy = or_SYSTEM_USER u2, tagId = i\<rparr>]"
proof -
  from nf run1 have on1: "associateTags_on v1 (Some S1) u1 d = (Inr r1, d1)"
    by (rule associateTags_None_Inr)
  from associateTags_on_fail_in [of v1 "Some S1" u1 d] on1 nf have nf1: "fail_in d1 = None"
    by simp
  from nf1 run2 have on2: "associateTags_on v2 (Some S2) u2 d1 = (Inr r2, d2)"
    by (rule associateTags_None_Inr)
  from one1 have S1: "S1 \<noteq> []"
    by auto
  from first_association [OF ok fk fresh one1 on1] obtain i
    where tags1: "filter (\<lambda>t. key t = k \<and> value t = x) (tag d1) = [\<lparr>key = k, value = x, id = i\<rparr>]"
      and joins1: "filter (\<lambda>j. tagId j = i) (version_tag d1)
               = [\<lparr>versionId = v1, createdBy = or_SYSTEM_USER u1, tagId = i\<rparr>]"
    by blast
  let ?t0 = "\<lparr>key = k, value = x, id = i\<rparr>"
  have ok1: "tag_ids_ok d1"
    by (rule tag_ids_ok_associateTags_on [OF ok S1 on1])
  have "filter (\<lambda>j. tagId j = i \<and> versionId j = v2) (version_tag d1)
      = filter (\<lambda>j. versionId j = v2) (filter (\<lambda>j. tagId j = i) (version_tag d1))"
    by (simp add: conj_commute)
  also have "\<dots> = []"
    using vs by (simp add: joins1)
  finally have notyet: "filter (\<lambda>j. tagId j = id ?t0 \<and> versionId j = v2) (version_tag d1) = []"
    by simp
  from further_association [OF ok1 tags1 one2 notyet on2] joins1 show ?thesis
    by (intro exI [of _ i]) simp
qed

theorem shared_attribute_record_witness:
  "tag_ids_ok sample_db \<and> version_tag_ids_ok sample_db \<and> fail_in sample_db = None
   \<and> getObjectsByKeyValue (tag sample_db) ''b'' ''2'' = None
   \<and> ''v1'' \<noteq> ''v2''
   \<and> (\<exists>i. filter (\<lambda>t. key t = ''b'' \<and> value t = ''2'')
             (tag (snd (snd (associateTags ''v2''
                (Some [\<lparr>key = ''a'', value = ''1''\<rparr>, \<lparr>key = ''b'', value = ''2''\<rparr>]) (Some ''u3'') None
                (snd (snd (associateTags ''v1'' (Some [\<lparr>key = ''b'', value = ''2''\<rparr>])
                             (Some ''u2'') None sample_db)))))))
           = [\<lparr>key = ''b'', value = ''2'', id = i\<rparr>]
         \<and> filter (\<lambda>j. tagId j = i)
             (version_tag (snd (snd (associateTags ''v2''
                (Some [\<lparr>key = ''a'', value = ''1''\<rparr>, \<lparr>key = ''b'', value = ''2''\<rparr>]) (Some ''u3'') None
                (snd (snd (associateTags ''v1'' (Some [\<lparr>key = ''b'', value = ''2''\<rparr>])
                             (Some ''u2'') None sample_db)))))))
           = [\<lparr>versionId = ''v1'', createdBy = ''u2'', tagId = i\<rparr>,
              \<lparr>versionId = ''v2'', createdBy = ''u3'', tagId = i\<rparr>])"
proof -
  let ?S1 = "[\<lparr>key = ''b'', value = ''2''\<rparr>]"
  let ?S2 = "[\<lparr>key = ''a'', value = ''1''\<rparr>, \<lparr>key = ''b'', value = ''2''\<rparr>]"
  let ?d1 = "sample_db\<lparr>tag := [\<lparr>key = ''a'', value = ''1'', id = 1\<rparr>,
                                 \<lparr>key = ''b'', value = ''2'', id = 2\<rparr>],
                tag_seq := 3,
                version_tag := [\<lparr>versionId = ''v1'', createdBy = ''u1'', tagId = 1\<rparr>,
                                \<lparr>versionId = ''v1'', createdBy = ''u2'', tagId = 2\<rparr>]\<rparr>"
  let ?d2 = "sample_db\<lparr>tag := [\<lparr>key = ''a'', value = ''1'', id = 1\<rparr>,
                                 \<lparr>key = ''b'', value = ''2'', id = 2\<rparr>],
                tag_seq := 3,
                version_tag := [\<lparr>versionId = ''v1'', createdBy = ''u1'', tagId = 1\<rparr>,
                                \<lparr>versionId = ''v1'', createdBy = ''u2'', tagId = 2\<rparr>,
                                \<lparr>versionId = ''v2'', createdBy = ''u3'', tagId = 1\<rparr>,
                                \<lparr>versionId = ''v2'', createdBy = ''u3'', tagId = 2\<rparr>]\<rparr>"
  have ok: "tag_ids_ok sample_db"
    by (simp add: tag_ids_ok_def sample_db_def)
  have fk: "version_tag_ids_ok sample_db"
    by (simp add: version_tag_ids_ok_def sample_db_def)
  have fresh: "getObjectsByKeyValue (tag sample_db) ''b'' ''2'' = None"
    by (simp add: sample_db_def getObjectsByKeyValue_def)
  have vs: "''v1'' \<noteq> ''v2''"
    by simp
  have one1: "filter (\<lambda>p. key p = ''b'' \<and> value p = ''2'') ?S1 = [\<lparr>key = ''b'', value = ''2''\<rparr>]"
    by simp
  have one2: "filter (\<lambda>p. key p = ''b'' \<and> value p = ''2'') ?S2 = [\<lparr>key = ''b'', value = ''2''\<rparr>]"
    by simp
  have run1: "associateTags ''v1'' (Some ?S1) (Some ''u2'') None sample_db
      = (Inr [\<lparr>key = ''b'', value = ''2'', id = 2\<rparr>], \<lparr>work = ?d1, status = Committed\<rparr>, ?d1)"
    by code_simp
  have run2: "associateTags ''v2'' (Some ?S2) (Some ''u3'') None ?d1
      = (Inr [\<lparr>key = ''a'', value = ''1'', id = 1\<rparr>, \<lparr>key = ''b'', value = ''2'', id = 2\<rparr>],
         \<lparr>work = ?d2, status = Committed\<rparr>, ?d2)"
    by code_simp
  have u: "or_SYSTEM_USER (Some ''u2'') = ''u2''" "or_SYSTEM_USER (Some ''u3'') = ''u3''"
    by (simp_all add: or_SYSTEM_USER_def)
  have nf: "fail_in sample_db = None"
    by (simp add: sample_db_def)
  from shared_attribute_record [OF ok fk nf fresh vs one1 one2 run1 run2]
  have "\<exists>i. filter (\<lambda>t. key t = ''b'' \<and> value t = ''2'') (tag ?d2)
              = [\<lparr>key = ''b'', value = ''2'', id = i\<rparr>]
           \<and> filter (\<lambda>j. tagId j = i) (version_tag ?d2)
              = [\<lparr>versionId = ''v1'', createdBy = ''u2'', tagId = i\<rparr>,
                 \<lparr>versionId = ''v2'', createdBy = ''u3'', tagId = i\<rparr>]"
    unfolding u .
  then show ?thesis
    unfolding run1 run2 snd_conv using ok fk nf fresh vs by blast
qed

end
